theory Spec2Isabelle
  imports Complex_Main "HOL-Library.Word"
begin

section \<open>Numbers and reductions\<close>

text \<open>
  The program computes with torch tensors, numpy arrays and Python floats. Their scalars
  are modelled as mathematical reals; a reduction whose result is NaN in the program
  (the mean of nothing, the corrected standard deviation of a single value) is
  \<open>None\<close>. A one-dimensional tensor is a list, a two-dimensional one a list of rows.
\<close>

definition avg :: "real list \<Rightarrow> real" where
  "avg xs = sum_list xs / real (length xs)"

definition mean :: "real list \<Rightarrow> real option" where
  "mean xs = (if xs = [] then None else Some (avg xs))"

definition sq_dev :: "real list \<Rightarrow> real" where
  "sq_dev xs = sum_list (map (\<lambda>x. (x - avg xs)\<^sup>2) xs)"

text \<open>\<^verbatim>\<open>Tensor.std()\<close> of torch divides by \<open>n - 1\<close> (Bessel's correction).\<close>

definition torch_std :: "real list \<Rightarrow> real option" where
  "torch_std xs =
     (if length xs \<le> 1 then None else Some (sqrt (sq_dev xs / real (length xs - 1))))"

text \<open>\<^verbatim>\<open>ndarray.std()\<close> of numpy divides by \<open>n\<close>.\<close>

definition np_std :: "real list \<Rightarrow> real option" where
  "np_std xs = (if xs = [] then None else Some (sqrt (sq_dev xs / real (length xs))))"

text \<open>\<^verbatim>\<open>a < b\<close> on floats: false as soon as one side is NaN.\<close>

definition nan_less :: "real option \<Rightarrow> real option \<Rightarrow> bool" where
  "nan_less a b = (case a of None \<Rightarrow> False
                   | Some x \<Rightarrow> (case b of None \<Rightarrow> False | Some y \<Rightarrow> x < y))"

text \<open>
  Stacking equally long vectors and reading the result along the other axis:
  \<open>columns rows ! w ! t = rows ! t ! w\<close>. Stacking raises when the shapes differ.
\<close>

definition rectangular :: "'a list list \<Rightarrow> bool" where
  "rectangular rows = list_all (\<lambda>r. length r = length (hd rows)) rows"

definition columns :: "'a list list \<Rightarrow> 'a list list" where
  "columns rows = map (\<lambda>w. map (\<lambda>r. r ! w) rows) [0..<length (hd rows)]"

datatype error =
    UnboundLocalError
  | IndexError
  | ShapeError
  | ZeroDivisionError
  | NotAContextManager
  | ValueError
  | LUFactError "nat list" "real list list"

section \<open>\<^verbatim>\<open>sample_wf\<close>: equilibration and block accumulation\<close>

text \<open>
  A block is the \<^verbatim>\<open>unp.uarray\<close> of line 62: per walker, the mean of the buffered
  local energies and their standard deviation over \<open>sqrt (len buffer)\<close>. An energy is
  the \<^verbatim>\<open>ufloat\<close> of line 71.
\<close>

type_synonym block = "(real \<times> real option) list"
type_synonym ufloat = "real option \<times> real option"
type_synonym 'r yielded = "int \<times> ufloat option \<times> 'r list option"

record 'r loop_state =
  dist_means :: "real list option"
  calculating_energy :: bool
  buffer :: "real list list"
  buffer_rs :: "'r list"
  blocks :: "block list"

text \<open>The locals before the loop (lines 43--46); \<open>dist_means\<close> is not bound yet.\<close>

definition sample_wf_init :: "block list \<Rightarrow> bool \<Rightarrow> 'r loop_state" where
  "sample_wf_init bl equilibrate =
     \<lparr>dist_means = None, calculating_energy = \<not> equilibrate, buffer = [],
      buffer_rs = [], blocks = bl\<rparr>"

text \<open>Lines 61--65: \<^verbatim>\<open>torch.stack(buffer)\<close> reduced along the step axis.\<close>

definition reduce_block :: "real list list \<Rightarrow> block" where
  "reduce_block buf =
     map (\<lambda>col. (avg col, map_option (\<lambda>sd. sd / sqrt (real (length buf))) (torch_std col)))
       (columns buf)"

text \<open>
  Lines 69--71. \<open>blocks_arr\<close> has one row per walker and one column per block;
  \<^verbatim>\<open>blocks_arr.mean(-1)\<close> averages each row, \<^verbatim>\<open>.std()\<close> is numpy's, and
  \<^verbatim>\<open>len(blocks_arr)\<close> is the number of rows.
\<close>

definition energy_estimate :: "block list \<Rightarrow> ufloat" where
  "energy_estimate bl =
     (let blocks_arr = columns (map (map fst) bl)
      in (mean (concat blocks_arr),
          map_option (\<lambda>sd. sd / sqrt (real (length blocks_arr)))
            (np_std (map avg blocks_arr))))"

text \<open>Lines 57--73, the body of \<^verbatim>\<open>if calculating_energy\<close>.\<close>

definition accumulate ::
  "('r \<Rightarrow> real list) \<Rightarrow> nat \<Rightarrow> int \<Rightarrow> 'r \<Rightarrow> 'r loop_state
    \<Rightarrow> 'r yielded list \<times> (error + 'r loop_state)" where
  "accumulate local_energy block_size step rs s =
     (let buf = buffer s @ [local_energy rs];
          brs = buffer_rs s @ [rs]
      in if length buf = block_size then
           (if \<not> rectangular buf then ([], Inl ShapeError)
            else
              let bl = blocks s @ [reduce_block buf]
              in if \<not> rectangular bl then ([], Inl ShapeError)
                 else ([(step, Some (energy_estimate bl), Some brs)],
                       Inr (s\<lparr>buffer := [], buffer_rs := [], blocks := bl\<rparr>)))
         else ([], Inr (s\<lparr>buffer := buf, buffer_rs := brs\<rparr>)))"

text \<open>
  One turn of the loop of line 47, for the pair \<open>(step, rs)\<close> that
  \<^verbatim>\<open>zip(steps, sampler)\<close> delivers. \<open>dist_mean rs\<close> is
  \<^verbatim>\<open>pairwise_self_distance(rs).mean()\<close> and \<open>local_energy rs\<close> is
  \<^verbatim>\<open>local_energy(rs, wf)[0]\<close>, both of the physics module. The result lists what the
  turn yields and then gives the new locals, or the exception that ends the generator.
  The \<^verbatim>\<open>writer\<close> block (lines 74--110) only reads the locals.
\<close>

definition sample_wf_iter ::
  "('r \<Rightarrow> real) \<Rightarrow> ('r \<Rightarrow> real list) \<Rightarrow> nat \<Rightarrow> 'r loop_state \<Rightarrow> int \<times> 'r
    \<Rightarrow> 'r yielded list \<times> (error + 'r loop_state)" where
  "sample_wf_iter dist_mean local_energy block_size s inp =
     (let step = fst inp; rs = snd inp
      in case (if step = 0 then Some (replicate (5 * block_size) 0) else dist_means s) of
           None \<Rightarrow> ([], Inl UnboundLocalError)
         | Some dm \<Rightarrow>
             if dm = [] then ([], Inl IndexError)
             else
               let dm' = tl dm @ [dist_mean rs];
                   s1 = s\<lparr>dist_means := Some dm'\<rparr>;
                   found = (\<not> calculating_energy s1 \<and> dm' ! 0 > 0 \<and>
                            nan_less (torch_std (take block_size dm'))
                              (torch_std (drop (length dm' - block_size) dm')));
                   s2 = (if found then s1\<lparr>calculating_energy := True\<rparr> else s1);
                   ys = (if found then [(step, None, None)] else [])
               in if calculating_energy s2 then
                    (case accumulate local_energy block_size step rs s2 of
                       (zs, r) \<Rightarrow> (ys @ zs, r))
                  else (ys, Inr s2))"

fun sample_wf ::
  "('r \<Rightarrow> real) \<Rightarrow> ('r \<Rightarrow> real list) \<Rightarrow> nat \<Rightarrow> 'r loop_state \<Rightarrow> (int \<times> 'r) list
    \<Rightarrow> 'r yielded list \<times> (error + 'r loop_state)" where
  "sample_wf dist_mean local_energy block_size s [] = ([], Inr s)"
| "sample_wf dist_mean local_energy block_size s (x # xs) =
     (case sample_wf_iter dist_mean local_energy block_size s x of
        (ys, Inl e) \<Rightarrow> (ys, Inl e)
      | (ys, Inr s') \<Rightarrow>
          (case sample_wf dist_mean local_energy block_size s' xs of
             (zs, r) \<Rightarrow> (ys @ zs, r)))"

text \<open>The yields \<open>(step, None, None)\<close> that signal the detection of equilibrium.\<close>

definition signals :: "'r yielded list \<Rightarrow> 'r yielded list" where
  "signals ys = filter (\<lambda>y. fst (snd y) = None) ys"

text \<open>
  The energy estimate in the words of the specification, for comparison with
  \<open>energy_estimate\<close>: from the sequence of block means, the nominal value is their
  mean and the standard deviation is their standard deviation over the square root of
  the number of blocks.
\<close>

definition energy_estimate_spec :: "real list \<Rightarrow> ufloat" where
  "energy_estimate_spec block_means =
     (mean block_means,
      map_option (\<lambda>sd. sd / sqrt (real (length block_means))) (np_std block_means))"


section \<open>The samplers\<close>

text \<open>
  \<^verbatim>\<open>MetropolisSampler\<close> and its subclass \<^verbatim>\<open>LangevinSampler\<close> are one record with
  the class as a field; a method the subclass overrides is a case on that field. A batch
  of walkers is a list with one entry per walker: the positions of a walker are its
  \<open>N \<times> 3\<close> coordinates in a row. \<open>ages\<close> is the attribute \<^verbatim>\<open>_ages\<close>, a tensor of
  64-bit integers; \<open>step_counter\<close> and \<open>totalstep\<close> are the Python integers
  \<^verbatim>\<open>_step\<close> and \<^verbatim>\<open>_totalstep\<close>. \<open>forces\<close> exists for the Langevin sampler only.
  The sampler is taken without a \<^verbatim>\<open>writer\<close>, which only reads the state.
\<close>

datatype kind = Metropolis | Langevin

record sampler =
  kind :: kind
  rs :: "real list list"
  tau :: real
  max_age :: "int option"
  n_first_certain :: int
  log_psi_threshold :: "real option"
  target_acceptance :: "real option"
  n_discard :: int
  n_decorrelate :: int
  log_psis :: "real list"
  sign_psis :: "real list"
  forces :: "real list list"
  ages :: "64 word list"
  step_counter :: int
  totalstep :: int

text \<open>
  What the sampler calls and this repository's sampling module does not define: the wave
  function \<^verbatim>\<open>wf\<close> (positions to log-amplitudes and signs), \<^verbatim>\<open>quantum_force\<close>, which
  either raises \<^verbatim>\<open>LUFactError\<close> with the indices of the offending walkers (\<open>Inl\<close>)
  or returns forces, log-amplitudes and signs, and \<^verbatim>\<open>clean_force\<close> (with the molecule
  of the wave function fixed). They are parameters of the model.
\<close>

record collaborators =
  wfn :: "real list list \<Rightarrow> real list \<times> real list"
  quantum_force ::
    "real list list \<Rightarrow> (nat list) + (real list list \<times> real list \<times> real list)"
  clean_force :: "real list list \<Rightarrow> real list list \<Rightarrow> real \<Rightarrow> real list list"

text \<open>
  The random numbers one call of \<^verbatim>\<open>step\<close> draws: \<open>randn d i j\<close> is the normal
  deviate for coordinate \<open>j\<close> of walker \<open>i\<close> (\<^verbatim>\<open>torch.randn_like(self.rs)\<close>),
  \<open>rand d i\<close> the uniform deviate for walker \<open>i\<close> (\<^verbatim>\<open>torch.rand_like(Ps_acc)\<close>).
\<close>

record draws =
  randn :: "nat \<Rightarrow> nat \<Rightarrow> real"
  rand :: "nat \<Rightarrow> real"

record info =
  info_acceptance :: real
  info_age :: "64 word list"
  info_tau :: real

type_synonym sample = "real list list \<times> real list \<times> real list \<times> info"

definition randn_like :: "draws \<Rightarrow> real list list \<Rightarrow> real list list" where
  "randn_like d xs = map (\<lambda>i. map (\<lambda>j. randn d i j) [0..<length (xs ! i)]) [0..<length xs]"

definition zip_with2 ::
  "(real \<Rightarrow> real \<Rightarrow> real) \<Rightarrow> real list list \<Rightarrow> real list list \<Rightarrow> real list list" where
  "zip_with2 f xs ys = map2 (map2 f) xs ys"

definition same_shape :: "real list list \<Rightarrow> real list list \<Rightarrow> bool" where
  "same_shape xs ys = (map length xs = map length ys)"

text \<open>Lines 174--175 and 346--351.\<close>

definition proposal :: "sampler \<Rightarrow> draws \<Rightarrow> real list list" where
  "proposal s d =
     (case kind s of
        Metropolis \<Rightarrow> zip_with2 (\<lambda>r n. r + n * tau s) (rs s) (randn_like d (rs s))
      | Langevin \<Rightarrow>
          zip_with2 (+) (zip_with2 (\<lambda>r f. r + f * tau s) (rs s) (forces s))
            (map (map (\<lambda>n. n * sqrt (tau s))) (randn_like d (rs s))))"

text \<open>
  Lines 364--371. The handler stores \<^verbatim>\<open>rs[e.info['idxs']]\<close> in the error and re-raises
  it; an index out of range raises \<^verbatim>\<open>IndexError\<close> in the handler instead.
\<close>

definition qforce ::
  "collaborators \<Rightarrow> sampler \<Rightarrow> real list list
    \<Rightarrow> error + (real list list \<times> real list \<times> real list)" where
  "qforce c s rs' =
     (case quantum_force c rs' of
        Inl idxs \<Rightarrow>
          if list_all (\<lambda>i. i < length rs') idxs
          then Inl (LUFactError idxs (map (\<lambda>i. rs' ! i) idxs))
          else Inl IndexError
      | Inr (f, lp, sp) \<Rightarrow> Inr (clean_force c f rs' (tau s), lp, sp))"

text \<open>Lines 355--358, for one walker: the sum over the electron and coordinate axes.\<close>

definition log_G_ratio :: "real \<Rightarrow> real list \<Rightarrow> real list \<Rightarrow> real list \<Rightarrow> real list \<Rightarrow> real" where
  "log_G_ratio t r r' f f' =
     (\<Sum>j\<leftarrow>[0..<length r]. (f ! j + f' ! j) * ((r ! j - r' ! j) + t / 2 * (f ! j - f' ! j)))"

text \<open>
  Lines 177--183 and 353--362: the acceptance probabilities, the log-amplitudes and
  signs of the candidate, and the extra variables (the forces, for Langevin).

  Line 178 of the Metropolis sampler reads \<^verbatim>\<open>with torch.no_grad:\<close>, without the
  call: \<^verbatim>\<open>torch.no_grad\<close> is a class, a class object is not a context manager, and the
  statement raises (\<^verbatim>\<open>AttributeError\<close> before Python 3.11, \<^verbatim>\<open>TypeError\<close> since)
  before its body runs. The Langevin sampler overrides the method.

  Tensors whose shapes do not fit make the arithmetic raise; the model asks for one
  entry per walker and does not broadcast.
\<close>

definition acceptance_prob ::
  "collaborators \<Rightarrow> sampler \<Rightarrow> real list list
    \<Rightarrow> error + (real list \<times> real list \<times> real list \<times> real list list list)" where
  "acceptance_prob c s rs' =
     (case kind s of
        Metropolis \<Rightarrow> Inl NotAContextManager
      | Langevin \<Rightarrow>
          (case qforce c s rs' of
             Inl e \<Rightarrow> Inl e
           | Inr (f', lp', sp') \<Rightarrow>
               if same_shape (rs s) rs' \<and> same_shape (forces s) rs' \<and> same_shape f' rs'
                  \<and> length lp' = length rs' \<and> length (log_psis s) = length rs'
               then Inr (map (\<lambda>i. exp (log_G_ratio (tau s) (rs s ! i) (rs' ! i)
                                          (forces s ! i) (f' ! i)
                                        + 2 * (lp' ! i - log_psis s ! i)))
                           [0..<length rs'],
                         lp', sp', [f'])
               else Inl ShapeError))"

text \<open>Lines 185--186 and 373--374.\<close>

definition extra_vars :: "sampler \<Rightarrow> real list list list" where
  "extra_vars s = (case kind s of Metropolis \<Rightarrow> [] | Langevin \<Rightarrow> [forces s])"

text \<open>
  The acceptance mask of \<^verbatim>\<open>step\<close>, stage by stage: the Bernoulli draw of line 223,
  the threshold of lines 224--227 (\<^verbatim>\<open>&\<close> binds tighter than \<^verbatim>\<open>|\<close>), the maximum
  age of lines 228--229 and the certain first steps of lines 230--231.
\<close>

definition accept_draw :: "draws \<Rightarrow> real list \<Rightarrow> bool list" where
  "accept_draw d Ps_acc = map (\<lambda>i. Ps_acc ! i > rand d i) [0..<length Ps_acc]"

definition accept_threshold ::
  "real option \<Rightarrow> real list \<Rightarrow> real list \<Rightarrow> bool list \<Rightarrow> bool list" where
  "accept_threshold threshold cur cand accepted =
     (case threshold of
        None \<Rightarrow> accepted
      | Some t \<Rightarrow>
          map (\<lambda>i. accepted ! i \<and> cand ! i > t \<or> (cur ! i < t \<and> cand ! i > cur ! i))
            [0..<length accepted])"

definition accept_max_age :: "int option \<Rightarrow> 64 word list \<Rightarrow> bool list \<Rightarrow> bool list" where
  "accept_max_age m as accepted =
     (case m of
        None \<Rightarrow> accepted
      | Some a \<Rightarrow> map (\<lambda>i. accepted ! i \<or> sint (as ! i) \<ge> a) [0..<length accepted])"

definition accept_first_certain :: "sampler \<Rightarrow> bool list \<Rightarrow> bool list" where
  "accept_first_certain s accepted =
     (if step_counter s < n_first_certain s then map (\<lambda>_. True) accepted else accepted)"

definition accept_mask :: "sampler \<Rightarrow> draws \<Rightarrow> real list \<Rightarrow> real list \<Rightarrow> bool list" where
  "accept_mask s d Ps_acc cand =
     accept_first_certain s
       (accept_max_age (max_age s) (ages s)
          (accept_threshold (log_psi_threshold s) (log_psis s) cand
             (accept_draw d Ps_acc)))"

text \<open>
  Modelled from the spec: \<^verbatim>\<open>assign_where\<close> of the module \<^verbatim>\<open>torchext\<close>, which is not
  among the sources. The specification of \<^verbatim>\<open>step\<close> (4.3, item 8) has it commit the
  accepted walkers' fields in place while the rejected walkers retain their values:
  for each pair of a destination and a source, the entries where the mask holds are
  overwritten. \<open>where_assign\<close> does it for one pair.
\<close>

definition where_assign :: "'a list \<Rightarrow> 'a list \<Rightarrow> bool list \<Rightarrow> 'a list" where
  "where_assign xs ys cond = map (\<lambda>i. if cond ! i then ys ! i else xs ! i) [0..<length xs]"

definition assign_where :: "sampler \<Rightarrow> real list list \<Rightarrow> real list \<Rightarrow> real list
    \<Rightarrow> real list list list \<Rightarrow> bool list \<Rightarrow> sampler" where
  "assign_where s rs' lp' sp' extra cond =
     (let s1 = s\<lparr>rs := where_assign (rs s) rs' cond,
                  log_psis := where_assign (log_psis s) lp' cond,
                  sign_psis := where_assign (sign_psis s) sp' cond\<rparr>
      in case (extra_vars s, extra) of
           ([_], [f']) \<Rightarrow> s1\<lparr>forces := where_assign (forces s) f' cond\<rparr>
         | _ \<Rightarrow> s1)"

text \<open>Python's truth value of \<^verbatim>\<open>target_acceptance\<close>: \<^verbatim>\<open>None\<close> and zero are false.\<close>

definition truthy :: "real option \<Rightarrow> bool" where
  "truthy t = (case t of None \<Rightarrow> False | Some x \<Rightarrow> x \<noteq> 0)"

text \<open>
  Lines 245--246. The quotient cannot be zero when the target is not: the division of
  \<open>tau\<close> raises nothing.
\<close>

definition adjust_tau :: "real option \<Rightarrow> real \<Rightarrow> real \<Rightarrow> real" where
  "adjust_tau target acceptance t =
     (if truthy target then t / (the target / max acceptance 0.05) else t)"

text \<open>
  Lines 220--267. The result is the sampler after the call and what the call returns or
  raises. An exception of \<^verbatim>\<open>acceptance_prob\<close> leaves before anything is assigned. The
  ages are updated in lines 232--233, before the division of line 234, which raises for
  an empty batch, and before \<^verbatim>\<open>assign_where\<close>, where a tensor of signs that has not one
  entry per walker cannot be indexed by the mask.
\<close>

definition step :: "collaborators \<Rightarrow> draws \<Rightarrow> sampler \<Rightarrow> sampler \<times> (error + sample)" where
  "step c d s =
     (let rs' = proposal s d
      in case acceptance_prob c s rs' of
           Inl e \<Rightarrow> (s, Inl e)
         | Inr (Ps_acc, lp', sp', extra) \<Rightarrow>
             let accepted = accept_mask s d Ps_acc lp';
                 s1 = s\<lparr>ages := map (\<lambda>i. if accepted ! i then 0 else ages s ! i + 1)
                                  [0..<length (ages s)]\<rparr>
             in if length (rs s) = 0 then (s1, Inl ZeroDivisionError)
                else
                  let acceptance = real (length (filter id accepted)) / real (length (rs s));
                      nfo = \<lparr>info_acceptance = acceptance, info_age = ages s1,
                             info_tau = tau s\<rparr>
                  in if length sp' \<noteq> length (rs s) then (s1, Inl IndexError)
                     else
                       let s2 = assign_where s1 rs' lp' sp' extra accepted;
                           s3 = s2\<lparr>tau := adjust_tau (target_acceptance s) acceptance (tau s),
                                   step_counter := step_counter s + 1,
                                   totalstep := totalstep s + 1\<rparr>
                       in (s3, Inr (rs s3, log_psis s3, sign_psis s3, nfo)))"

text \<open>Lines 303--304 and 381--382, and \<^verbatim>\<open>restart\<close> (lines 306--309).\<close>

definition recompute_psi :: "collaborators \<Rightarrow> sampler \<Rightarrow> error + sampler" where
  "recompute_psi c s =
     (case kind s of
        Metropolis \<Rightarrow> (case wfn c (rs s) of (lp, sp) \<Rightarrow> Inr (s\<lparr>log_psis := lp, sign_psis := sp\<rparr>))
      | Langevin \<Rightarrow>
          (case qforce c s (rs s) of
             Inl e \<Rightarrow> Inl e
           | Inr (f, lp, sp) \<Rightarrow> Inr (s\<lparr>forces := f, log_psis := lp, sign_psis := sp\<rparr>)))"

definition restart :: "collaborators \<Rightarrow> sampler \<Rightarrow> error + sampler" where
  "restart c s =
     (case recompute_psi c (s\<lparr>step_counter := 0\<rparr>) of
        Inl e \<Rightarrow> Inl e
      | Inr s' \<Rightarrow> Inr (s'\<lparr>ages := replicate (length (log_psis s')) 0\<rparr>))"

text \<open>
  The invariant of the walker state: the per-walker arrays have one entry per walker
  and the forces have the shape of the positions, so that index \<open>i\<close> is walker \<open>i\<close>
  in each of them.
\<close>

definition aligned :: "sampler \<Rightarrow> bool" where
  "aligned s = (length (log_psis s) = length (rs s) \<and> length (sign_psis s) = length (rs s)
                \<and> length (ages s) = length (rs s)
                \<and> (kind s = Langevin \<longrightarrow> same_shape (forces s) (rs s)))"


section \<open>Iterating the sampler\<close>

text \<open>
  \<^verbatim>\<open>iter_with_info\<close> (lines 269--273) is a generator that never ends by itself. Its
  state is the sampler and the counter \<open>i\<close> of \<^verbatim>\<open>count(-self.n_discard)\<close>; one
  \<^verbatim>\<open>next\<close> on it runs the loop from the value \<open>i\<close> the counter has next up to
  the \<^verbatim>\<open>yield\<close>, or to an exception. The result is the sampler, the value the counter
  has next, and the sample yielded or the exception. \<open>rng k\<close> are the random numbers
  of the call of \<^verbatim>\<open>step\<close> that finds \<^verbatim>\<open>_totalstep\<close> at \<open>k\<close>. Python's \<^verbatim>\<open>%\<close> on
  integers is \<open>mod\<close>, and raises for a zero divisor.
\<close>

function iter_with_info ::
  "collaborators \<Rightarrow> (nat \<Rightarrow> draws) \<Rightarrow> sampler \<Rightarrow> int
    \<Rightarrow> (sampler \<times> int) \<times> (error + sample)" where
  "iter_with_info c rng s i =
     (case step c (rng (nat (totalstep s))) s of
        (s', Inl e) \<Rightarrow> ((s', i), Inl e)
      | (s', Inr smp) \<Rightarrow>
          if i \<ge> 0 then
            (if n_decorrelate s' + 1 = 0 then ((s', i), Inl ZeroDivisionError)
             else if i mod (n_decorrelate s' + 1) = 0 then ((s', i + 1), Inr smp)
             else iter_with_info c rng s' (i + 1))
          else iter_with_info c rng s' (i + 1))"
  by pat_completeness auto

text \<open>
  The loop ends: \<^verbatim>\<open>step\<close> does not touch \<^verbatim>\<open>n_decorrelate\<close>, a negative counter
  climbs to zero, and from there the next multiple of \<open>n_decorrelate + 1\<close> is reached
  (a zero divisor raises at once).
\<close>

lemma step_n_decorrelate: "n_decorrelate (fst (step c d s)) = n_decorrelate s"
  by (auto simp: step_def Let_def assign_where_def split: sum.splits prod.splits list.splits)

lemma pred_mod:
  assumes "0 < (k::int)" "j mod k \<noteq> 0"
  shows "(j - 1) mod k = j mod k - 1"
proof -
  have "0 \<le> j mod k" using assms(1) by (rule pos_mod_sign)
  moreover have "j mod k < k" using assms(1) by (rule pos_mod_bound)
  ultimately have r: "0 < j mod k" "j mod k < k" using assms(2) by linarith+
  have "(j - 1) mod k = (j mod k - 1) mod k"
    by (simp add: mod_diff_left_eq)
  also have "\<dots> = j mod k - 1" using r by (intro mod_pos_pos_trivial) auto
  finally show ?thesis .
qed

lemma neg_mod_nonzero: "(m::int) \<noteq> 0 \<Longrightarrow> i mod m \<noteq> 0 \<Longrightarrow> (- i) mod \<bar>m\<bar> \<noteq> 0"
  by auto

lemma countdown:
  assumes "(m::int) \<noteq> 0" "i mod m \<noteq> 0"
  shows "0 < (- i) mod \<bar>m\<bar>" "(- i - 1) mod \<bar>m\<bar> < (- i) mod \<bar>m\<bar>"
proof -
  have k: "0 < \<bar>m\<bar>" using assms(1) by simp
  have nz: "(- i) mod \<bar>m\<bar> \<noteq> 0" using assms by (rule neg_mod_nonzero)
  have "0 \<le> (- i) mod \<bar>m\<bar>" using k by (rule pos_mod_sign)
  then show "0 < (- i) mod \<bar>m\<bar>" using nz by linarith
  show "(- i - 1) mod \<bar>m\<bar> < (- i) mod \<bar>m\<bar>" using pred_mod[OF k nz] by simp
qed

lemma step_keeps_n_decorrelate:
  "(s', r) = step c d s \<Longrightarrow> n_decorrelate s' = n_decorrelate s"
  using step_n_decorrelate[of c d s] by (metis fst_conv)

termination iter_with_info
  apply (relation "measure (\<lambda>(c, rng, s, i).
      if i < 0 then nat (\<bar>n_decorrelate s + 1\<bar> + 1 - i)
      else nat ((- i) mod \<bar>n_decorrelate s + 1\<bar>))")
     apply simp
    apply (auto dest!: step_keeps_n_decorrelate simp: countdown)
  subgoal for s i x
  proof -
    assume "\<not> 0 \<le> i" "\<not> i + 1 < 0"
    then have "i = - 1" by linarith
    then show ?thesis by simp
  qed
  done

declare iter_with_info.simps [simp del]

text \<open>
  The step with index \<open>n\<close>, counting from zero, of a run of steps that starts at \<open>s\<close>:
  the sampler after it and what it returns, or the first exception on the way.
\<close>

fun nth_step ::
  "collaborators \<Rightarrow> (nat \<Rightarrow> draws) \<Rightarrow> nat \<Rightarrow> sampler \<Rightarrow> sampler \<times> (error + sample)" where
  "nth_step c rng 0 s = step c (rng (nat (totalstep s))) s"
| "nth_step c rng (Suc n) s =
     (case step c (rng (nat (totalstep s))) s of
        (s', Inl e) \<Rightarrow> (s', Inl e)
      | (s', Inr smp) \<Rightarrow> nth_step c rng n s')"

text \<open>
  \<^verbatim>\<open>zip(steps, sampler)\<close> of \<^verbatim>\<open>samples_from\<close> (line 114) over \<^verbatim>\<open>range(n)\<close>: \<open>n\<close> times
  \<^verbatim>\<open>next\<close> on the generator.
\<close>

fun draw_samples ::
  "collaborators \<Rightarrow> (nat \<Rightarrow> draws) \<Rightarrow> nat \<Rightarrow> sampler \<Rightarrow> int
    \<Rightarrow> sampler \<times> (error + sample list)" where
  "draw_samples c rng 0 s i = (s, Inr [])"
| "draw_samples c rng (Suc n) s i =
     (case iter_with_info c rng s i of
        ((s', i'), Inl e) \<Rightarrow> (s', Inl e)
      | ((s', i'), Inr smp) \<Rightarrow>
          (case draw_samples c rng n s' i' of
             (s'', Inl e) \<Rightarrow> (s'', Inl e)
           | (s'', Inr smps) \<Rightarrow> (s'', Inr (smp # smps))))"

text \<open>
  Lines 113--120, on a fresh iterator of the sampler (\<^verbatim>\<open>__iter__\<close> drops the
  diagnostics). Unpacking the transposition of no samples raises \<^verbatim>\<open>ValueError\<close>;
  \<^verbatim>\<open>torch.stack(xs, dim=1)\<close> puts the step axis second, as \<open>columns\<close> does.
\<close>

definition samples_from ::
  "collaborators \<Rightarrow> (nat \<Rightarrow> draws) \<Rightarrow> sampler \<Rightarrow> int
    \<Rightarrow> sampler \<times> (error + (real list list list \<times> real list list \<times> real list list))" where
  "samples_from c rng s n_steps =
     (case draw_samples c rng (nat n_steps) s (- n_discard s) of
        (s', Inl e) \<Rightarrow> (s', Inl e)
      | (s', Inr smps) \<Rightarrow>
          if smps = [] then (s', Inl ValueError)
          else
            let xs = map (\<lambda>(r, lp, sp, nfo). r) smps;
                lps = map (\<lambda>(r, lp, sp, nfo). lp) smps;
                sps = map (\<lambda>(r, lp, sp, nfo). sp) smps
            in if rectangular xs \<and> rectangular lps \<and> rectangular sps
               then (s', Inr (columns xs, columns lps, columns sps))
               else (s', Inl ShapeError))"

text \<open>
  One turn of the loop of \<^verbatim>\<open>iter_batches\<close> (lines 291--301): the batches it yields,
  then the sampler and the exception that ended the turn, if any. A row of a batch is
  the position, log-amplitude and sign of one walker at one step. \<open>perm\<close> is the
  random permutation of the pool that the shuffling \<^verbatim>\<open>DataLoader\<close> draws; it takes the
  indices in groups of \<^verbatim>\<open>batch_size\<close> and drops the last group when it is short
  (\<^verbatim>\<open>drop_last\<close>). \<^verbatim>\<open>TensorDataset\<close> wants tensors of one length and \<^verbatim>\<open>DataLoader\<close> a
  positive batch size. \<^verbatim>\<open>restart\<close> sets \<^verbatim>\<open>_step\<close> before it can raise.
\<close>

type_synonym row = "real list \<times> real \<times> real"

definition iter_batches_epoch ::
  "collaborators \<Rightarrow> (nat \<Rightarrow> draws) \<Rightarrow> nat list \<Rightarrow> int \<Rightarrow> int \<Rightarrow> sampler
    \<Rightarrow> row list list \<times> sampler \<times> error option" where
  "iter_batches_epoch c rng perm epoch_size batch_size s =
     (if length (rs s) = 0 then ([], s, Some ZeroDivisionError)
      else
        case samples_from c rng s
               \<lceil>real_of_int (epoch_size * batch_size) / real (length (rs s))\<rceil> of
          (s1, Inl e) \<Rightarrow> ([], s1, Some e)
        | (s1, Inr (xs, lps, sps)) \<Rightarrow>
            if length (concat lps) \<noteq> length (concat xs)
               \<or> length (concat sps) \<noteq> length (concat xs)
            then ([], s1, Some ShapeError)
            else if batch_size \<le> 0 then ([], s1, Some ValueError)
            else
              let pool = zip (concat xs) (zip (concat lps) (concat sps));
                  b = nat batch_size;
                  batches = map (\<lambda>k. map (\<lambda>j. pool ! (perm ! j)) [k * b..<(k + 1) * b])
                              [0..<length pool div b]
              in case restart c s1 of
                   Inl e \<Rightarrow> (batches, s1\<lparr>step_counter := 0\<rparr>, Some e)
                 | Inr s2 \<Rightarrow> (batches, s2, None))"

text \<open>The turns of \<^verbatim>\<open>while True\<close>, one for each permutation given.\<close>

fun iter_batches ::
  "collaborators \<Rightarrow> (nat \<Rightarrow> draws) \<Rightarrow> int \<Rightarrow> int \<Rightarrow> sampler \<Rightarrow> nat list list
    \<Rightarrow> row list list list \<times> sampler \<times> error option" where
  "iter_batches c rng epoch_size batch_size s [] = ([], s, None)"
| "iter_batches c rng epoch_size batch_size s (perm # perms) =
     (case iter_batches_epoch c rng perm epoch_size batch_size s of
        (batches, s', Some e) \<Rightarrow> ([batches], s', Some e)
      | (batches, s', None) \<Rightarrow>
          (case iter_batches c rng epoch_size batch_size s' perms of
             (rest, s'', r) \<Rightarrow> (batches # rest, s'', r)))"

text \<open>
  A permutation of the indices of a pool of \<open>n\<close> rows.
\<close>

definition is_permutation :: "nat list \<Rightarrow> nat \<Rightarrow> bool" where
  "is_permutation perm n = (length perm = n \<and> distinct perm \<and> list_all (\<lambda>k. k < n) perm)"


section \<open>Tensors as objects\<close>

text \<open>
  Whether two tensors are one object matters where one of them is assigned in place.
  Here the tensors live in a store: an address is an index into the list of all tensors
  allocated so far, allocation appends, and an assignment in place replaces the entry
  at an address. The sampler object holds the addresses of its tensor attributes
  (\<^verbatim>\<open>self.forces\<close> exists for the Langevin sampler only) and its other attributes in
  a \<open>sampler\<close> record whose tensor fields are left empty. \<open>on_cpu\<close> tells where the
  tensors of the sampler live.
\<close>

datatype tensor = Positions "real list list" | Values "real list" | Counters "64 word list"

fun positions_of :: "tensor \<Rightarrow> real list list" where
  "positions_of (Positions x) = x"
| "positions_of (Values x) = []"
| "positions_of (Counters x) = []"

fun values_of :: "tensor \<Rightarrow> real list" where
  "values_of (Values x) = x"
| "values_of (Positions x) = []"
| "values_of (Counters x) = []"

fun counters_of :: "tensor \<Rightarrow> 64 word list" where
  "counters_of (Counters x) = x"
| "counters_of (Positions x) = []"
| "counters_of (Values x) = []"

type_synonym store = "tensor list"

record object =
  rs_ref :: nat
  log_psis_ref :: nat
  sign_psis_ref :: nat
  ages_ref :: nat
  forces_ref :: "nat option"
  attrs :: sampler
  on_cpu :: bool

definition scalars :: "sampler \<Rightarrow> sampler" where
  "scalars s = s\<lparr>rs := [], log_psis := [], sign_psis := [], forces := [], ages := []\<rparr>"

text \<open>The sampler as the methods see it: each tensor attribute read at its address.\<close>

definition view :: "store \<Rightarrow> object \<Rightarrow> sampler" where
  "view h ob =
     (attrs ob)\<lparr>rs := positions_of (h ! rs_ref ob),
                 log_psis := values_of (h ! log_psis_ref ob),
                 sign_psis := values_of (h ! sign_psis_ref ob),
                 ages := counters_of (h ! ages_ref ob),
                 forces := (case forces_ref ob of None \<Rightarrow> []
                            | Some f \<Rightarrow> positions_of (h ! f))\<rparr>"

text \<open>
  The assignments in place of \<^verbatim>\<open>step\<close>: \<^verbatim>\<open>self._ages[...] = ...\<close> (lines 232--233) and
  \<^verbatim>\<open>x[where] = y[where]\<close> of \<^verbatim>\<open>assign_where\<close> keep each tensor at its address.
\<close>

definition write_back :: "store \<Rightarrow> object \<Rightarrow> sampler \<Rightarrow> store" where
  "write_back h ob s =
     (let h1 = h[rs_ref ob := Positions (rs s),
                 log_psis_ref ob := Values (log_psis s),
                 sign_psis_ref ob := Values (sign_psis s),
                 ages_ref ob := Counters (ages s)]
      in case forces_ref ob of None \<Rightarrow> h1 | Some f \<Rightarrow> h1[f := Positions (forces s)])"

text \<open>
  What \<^verbatim>\<open>step\<close> returns, as addresses: line 267 clones the positions, log-amplitudes
  and signs into new tensors. The ages of the diagnostics are
  \<^verbatim>\<open>self._ages.cpu().numpy()\<close> (line 237): \<^verbatim>\<open>.cpu()\<close> of a tensor on the CPU is the
  tensor itself and \<^verbatim>\<open>.numpy()\<close> shares its memory, so on the CPU the array is the
  sampler's own tensor; from another device \<^verbatim>\<open>.cpu()\<close> copies.
\<close>

record returned =
  out_rs :: nat
  out_log_psis :: nat
  out_sign_psis :: nat
  out_age :: nat
  out_acceptance :: real
  out_tau :: real

definition h_step ::
  "collaborators \<Rightarrow> draws \<Rightarrow> store \<times> object \<Rightarrow> (store \<times> object) \<times> (error + returned)" where
  "h_step c d ho =
     (let h = fst ho; ob = snd ho;
          res = step c d (view h ob);
          s' = fst res;
          h1 = write_back h ob s';
          ob1 = ob\<lparr>attrs := scalars s'\<rparr>
      in case snd res of
           Inl e \<Rightarrow> ((h1, ob1), Inl e)
         | Inr (r, lp, sp, nfo) \<Rightarrow>
             let n = length h1;
                 h2 = h1 @ [Positions r, Values lp, Values sp]
                        @ (if on_cpu ob then [] else [Counters (info_age nfo)])
             in ((h2, ob1),
                 Inr \<lparr>out_rs = n, out_log_psis = n + 1, out_sign_psis = n + 2,
                      out_age = (if on_cpu ob then ages_ref ob else n + 3),
                      out_acceptance = info_acceptance nfo, out_tau = info_tau nfo\<rparr>))"

text \<open>
  \<^verbatim>\<open>restart\<close> binds the attributes to the new tensors that the collaborators and
  \<^verbatim>\<open>torch.zeros_like\<close> return; the tensors bound before are left as they are.
\<close>

definition bind_psi :: "store \<Rightarrow> object \<Rightarrow> sampler \<Rightarrow> store \<times> object" where
  "bind_psi h ob s =
     (let n = length h;
          h1 = h @ [Values (log_psis s), Values (sign_psis s), Counters (ages s)];
          ob1 = ob\<lparr>log_psis_ref := n, sign_psis_ref := n + 1, ages_ref := n + 2,
                   attrs := scalars s\<rparr>
      in case kind s of
           Metropolis \<Rightarrow> (h1, ob1)
         | Langevin \<Rightarrow> (h1 @ [Positions (forces s)], ob1\<lparr>forces_ref := Some (n + 3)\<rparr>))"

definition h_restart ::
  "collaborators \<Rightarrow> store \<times> object \<Rightarrow> (store \<times> object) \<times> (error + unit)" where
  "h_restart c ho =
     (let h = fst ho; ob = snd ho
      in case restart c (view h ob) of
           Inl e \<Rightarrow> ((h, ob\<lparr>attrs := scalars ((view h ob)\<lparr>step_counter := 0\<rparr>)\<rparr>), Inl e)
         | Inr s' \<Rightarrow> (bind_psi h ob s', Inr ()))"

text \<open>Lines 311--313: the proposal is a new tensor.\<close>

definition h_propagate_all ::
  "collaborators \<Rightarrow> draws \<Rightarrow> store \<times> object \<Rightarrow> (store \<times> object) \<times> (error + unit)" where
  "h_propagate_all c d ho =
     (let h = fst ho; ob = snd ho
      in h_restart c (h @ [Positions (proposal (view h ob) d)], ob\<lparr>rs_ref := length h\<rparr>))"

text \<open>
  Lines 161--172: the constructor, given the address \<open>a\<close> of the caller's tensor of
  initial positions and the keyword arguments in a \<open>sampler\<close> record. An exception of
  \<^verbatim>\<open>restart\<close> leaves no object.
\<close>

definition h_init ::
  "collaborators \<Rightarrow> store \<Rightarrow> nat \<Rightarrow> sampler \<Rightarrow> bool \<Rightarrow> error + (store \<times> object)" where
  "h_init c h a p cpu =
     (let h1 = h @ [Positions (positions_of (h ! a))];
          ob = \<lparr>rs_ref = length h, log_psis_ref = length h, sign_psis_ref = length h,
                ages_ref = length h, forces_ref = None, attrs = scalars p, on_cpu = cpu\<rparr>
      in case restart c (p\<lparr>rs := positions_of (h ! a)\<rparr>) of
           Inl e \<Rightarrow> Inl e
         | Inr s' \<Rightarrow> Inr (bind_psi h1 ob (s'\<lparr>totalstep := 0\<rparr>)))"

text \<open>Any later use of the sampler: a sequence of calls, whatever each returns or raises.\<close>

datatype call = Step draws | Restart | PropagateAll draws

fun h_call :: "collaborators \<Rightarrow> call \<Rightarrow> store \<times> object \<Rightarrow> store \<times> object" where
  "h_call c (Step d) ho = fst (h_step c d ho)"
| "h_call c Restart ho = fst (h_restart c ho)"
| "h_call c (PropagateAll d) ho = fst (h_propagate_all c d ho)"

fun h_run :: "collaborators \<Rightarrow> store \<times> object \<Rightarrow> call list \<Rightarrow> store \<times> object" where
  "h_run c ho [] = ho"
| "h_run c ho (x # xs) = h_run c (h_call c x ho) xs"

text \<open>The addresses the sampler object holds.\<close>

definition owned :: "object \<Rightarrow> nat list" where
  "owned ob =
     [rs_ref ob, log_psis_ref ob, sign_psis_ref ob, ages_ref ob]
       @ (case forces_ref ob of None \<Rightarrow> [] | Some f \<Rightarrow> [f])"


section \<open>Inputs for the examples\<close>

text \<open>
  A Langevin sampler with two walkers of one coordinate each, at \<open>0\<close> and \<open>1\<close>. The
  collaborators make the log-amplitude of a walker minus its coordinate, with sign
  \<open>1\<close> and no force. With step size \<open>1 / 4\<close> and all normal deviates \<open>1\<close> both
  candidates lie \<open>1 / 2\<close> further out, so both acceptance probabilities are
  \<open>exp (- 1)\<close>; the uniform deviates \<open>1 / 4\<close> and \<open>1 / 2\<close> accept the first walker and
  reject the second.
\<close>

definition demo_collab :: collaborators where
  "demo_collab =
     \<lparr>wfn = (\<lambda>xs. (map (\<lambda>r. - sum_list r) xs, map (\<lambda>r. 1) xs)),
      quantum_force = (\<lambda>xs. Inr (map (map (\<lambda>x. 0)) xs, map (\<lambda>r. - sum_list r) xs,
                                 map (\<lambda>r. 1) xs)),
      clean_force = (\<lambda>f xs t. f)\<rparr>"

definition failing_collab :: collaborators where
  "failing_collab = demo_collab\<lparr>quantum_force := (\<lambda>xs. Inl [1])\<rparr>"

definition demo_draws :: draws where
  "demo_draws = \<lparr>randn = (\<lambda>i j. 1), rand = (\<lambda>i. if i = 0 then 1 / 4 else 1 / 2)\<rparr>"

definition demo_sampler :: sampler where
  "demo_sampler =
     \<lparr>kind = Langevin, rs = [[0], [1]], tau = 1 / 4, max_age = None, n_first_certain = 0,
      log_psi_threshold = None, target_acceptance = Some (57 / 100), n_discard = 0,
      n_decorrelate = 0, log_psis = [0, - 1], sign_psis = [1, 1], forces = [[0], [0]],
      ages = [0, 0], step_counter = 0, totalstep = 0\<rparr>"

text \<open>
  One walker at \<open>0\<close> whose log-amplitude is \<open>0\<close> wherever it is, and a threshold of
  \<open>0\<close>: the candidate's log-amplitude equals the threshold.
\<close>

definition flat_collab :: collaborators where
  "flat_collab =
     \<lparr>wfn = (\<lambda>xs. (map (\<lambda>r. 0) xs, map (\<lambda>r. 1) xs)),
      quantum_force = (\<lambda>xs. Inr (map (map (\<lambda>x. 0)) xs, map (\<lambda>r. 0) xs, map (\<lambda>r. 1) xs)),
      clean_force = (\<lambda>f xs t. f)\<rparr>"

definition boundary_sampler :: sampler where
  "boundary_sampler =
     \<lparr>kind = Langevin, rs = [[0]], tau = 1, max_age = None, n_first_certain = 0,
      log_psi_threshold = Some 0, target_acceptance = None, n_discard = 0,
      n_decorrelate = 0, log_psis = [0], sign_psis = [1], forces = [[0]],
      ages = [0], step_counter = 0, totalstep = 0\<rparr>"

text \<open>The example sampler after the example step.\<close>

definition after_demo_step :: sampler where
  "after_demo_step =
     demo_sampler\<lparr>ages := [0, 1], rs := [[1 / 2], [1]], log_psis := [- (1 / 2), - 1],
       sign_psis := [1, 1], forces := [[0], [0]], tau := 25 / 114,
       step_counter := 1, totalstep := 1\<rparr>"


section \<open>Evaluation rules\<close>

lemmas sample_wf_defs = sample_wf_iter_def accumulate_def reduce_block_def energy_estimate_def
  columns_def rectangular_def avg_def mean_def sq_dev_def torch_std_def np_std_def nan_less_def
  sample_wf_init_def Let_def

section \<open>Equilibration\<close>

lemma signals_append [simp]: "signals (ys @ zs) = signals ys @ signals zs"
  by (simp add: signals_def)

lemma signals_Nil [simp]: "signals [] = []"
  by (simp add: signals_def)

lemma accumulate_signals:
  "accumulate le bs n x0 s = (zs, r) \<Longrightarrow> signals zs = []"
  by (auto simp: accumulate_def Let_def signals_def split: if_splits)

lemma accumulate_flag:
  "accumulate le bs n x0 s = (zs, Inr s') \<Longrightarrow> calculating_energy s' = calculating_energy s \<and> dist_means s' = dist_means s"
  by (auto simp: accumulate_def Let_def split: if_splits)

lemma iter_window:
  assumes "sample_wf_iter d le bs s (n, x0) = (zs, Inr s')"
    and "dist_means s = None \<or> (\<exists>w. dist_means s = Some w \<and> length w = 5 * bs)"
  shows "\<exists>w. dist_means s' = Some w \<and> length w = 5 * bs \<and> last w = d x0
          \<and> (\<not> calculating_energy s \<longrightarrow>
                (calculating_energy s' \<longleftrightarrow>
                   0 < w ! 0 \<and> nan_less (torch_std (take bs w)) (torch_std (drop (4 * bs) w)))
              \<and> ((n, None, None) \<in> set zs \<longleftrightarrow> calculating_energy s'))"
proof -
  define dm0 where "dm0 = (if n = 0 then Some (replicate (5 * bs) (0::real)) else dist_means s)"
  from assms(1) obtain dm where dm: "dm0 = Some dm" "dm \<noteq> []"
    by (auto simp: sample_wf_iter_def dm0_def Let_def split: option.splits if_splits)
  have len: "length dm = 5 * bs" using dm(1) assms(2) by (auto simp: dm0_def split: if_splits)
  define w where "w = tl dm @ [d x0]"
  have lw: "length w = 5 * bs" using len dm(2) by (cases dm) (auto simp: w_def)
  have d4: "length w - bs = 4 * bs" using lw by simp
  define found where "found = (\<not> calculating_energy s \<and> 0 < w ! 0 \<and>
       nan_less (torch_std (take bs w)) (torch_std (drop (4 * bs) w)))"
  show ?thesis
  proof (cases "calculating_energy s \<or> found")
    case True
    define s2 where "s2 = (if found then s\<lparr>dist_means := Some w, calculating_energy := True\<rparr> else s\<lparr>dist_means := Some w\<rparr>)"
    from True have c2: "calculating_energy s2" by (auto simp: s2_def)
    from assms(1) dm True obtain z2 where
      acc: "accumulate le bs n x0 s2 = (z2, Inr s')" and zs: "zs = (if found then [(n, None, None)] else []) @ z2"
      using d4
      by (auto simp: sample_wf_iter_def dm0_def[symmetric] w_def[symmetric] found_def s2_def Let_def
          split: prod.splits if_splits)
    from accumulate_flag[OF acc] have f: "calculating_energy s'" "dist_means s' = Some w"
      using c2 by (auto simp: s2_def)
    from accumulate_signals[OF acc] have "(n, None, None) \<notin> set z2"
      by (auto simp: signals_def filter_empty_conv)
    then show ?thesis using f lw zs True by (auto simp: w_def found_def)
  next
    case False
    from assms(1) dm False have "s' = s\<lparr>dist_means := Some w\<rparr>" "zs = []"
      using d4
      by (auto simp: sample_wf_iter_def dm0_def[symmetric] w_def[symmetric] found_def Let_def
          split: prod.splits if_splits)
    then show ?thesis using False lw by (auto simp: w_def found_def)
  qed
qed


lemma iter_flag_mono:
  "sample_wf_iter d le bs s x = (zs, Inr s') \<Longrightarrow> calculating_energy s \<Longrightarrow> calculating_energy s'"
  using accumulate_flag[of le bs "fst x" "snd x" _ _ s']
  by (auto simp: sample_wf_iter_def Let_def split: option.splits if_splits prod.splits)

lemma run_flag_mono:
  "sample_wf d le bs s xs = (ys, Inr s') \<Longrightarrow> calculating_energy s \<Longrightarrow> calculating_energy s'"
proof (induction xs arbitrary: s ys)
  case Nil
  then show ?case by simp
next
  case (Cons x xs)
  from Cons.prems(1) obtain y1 s1 y2 where
    it: "sample_wf_iter d le bs s x = (y1, Inr s1)" and
    rest: "sample_wf d le bs s1 xs = (y2, Inr s')"
    by (auto split: prod.splits sum.splits)
  from iter_flag_mono[OF it Cons.prems(2)] Cons.IH[OF rest] show ?case by simp
qed

lemma run_window:
  "sample_wf d le bs s xs = (ys, Inr s') \<Longrightarrow>
   dist_means s = None \<or> (\<exists>w. dist_means s = Some w \<and> length w = 5 * bs) \<Longrightarrow>
   dist_means s' = None \<or> (\<exists>w. dist_means s' = Some w \<and> length w = 5 * bs)"
proof (induction xs arbitrary: s ys)
  case Nil
  then show ?case by simp
next
  case (Cons x xs)
  from Cons.prems(1) obtain y1 s1 y2 where
    it: "sample_wf_iter d le bs s (fst x, snd x) = (y1, Inr s1)" and
    rest: "sample_wf d le bs s1 xs = (y2, Inr s')"
    by (auto split: prod.splits sum.splits)
  from iter_window[OF it Cons.prems(2)] have "\<exists>w. dist_means s1 = Some w \<and> length w = 5 * bs"
    by blast
  then show ?case using Cons.IH[OF rest] by blast
qed

lemma iter_cases:
  assumes "sample_wf_iter d le bs s x = (zs, r)"
  shows "(zs = [] \<and> (\<exists>e. r = Inl e))
       \<or> (zs = [] \<and> \<not> calculating_energy s
           \<and> (\<exists>s'. r = Inr s' \<and> \<not> calculating_energy s' \<and> blocks s' = blocks s))
       \<or> (\<exists>pre z2 s2. zs = pre @ z2 \<and> accumulate le bs (fst x) (snd x) s2 = (z2, r)
             \<and> calculating_energy s2 \<and> blocks s2 = blocks s
             \<and> (pre = [] \<and> calculating_energy s
                 \<or> pre = [(fst x, None, None)] \<and> \<not> calculating_energy s))"
proof -
  define dm0 where
    "dm0 = (if fst x = 0 then Some (replicate (5 * bs) (0::real)) else dist_means s)"
  show ?thesis
  proof (cases dm0)
    case None
    then show ?thesis using assms by (auto simp: sample_wf_iter_def dm0_def[symmetric] Let_def)
  next
    case (Some dm)
    show ?thesis
    proof (cases "dm = []")
      case True
      then show ?thesis using assms Some
        by (auto simp: sample_wf_iter_def dm0_def[symmetric] Let_def)
    next
      case False
      define w where "w = tl dm @ [d (snd x)]"
      define found where "found = (\<not> calculating_energy s \<and> 0 < w ! 0 \<and>
        nan_less (torch_std (take bs w)) (torch_std (drop (length w - bs) w)))"
      define s2 where "s2 = (if found then s\<lparr>dist_means := Some w, calculating_energy := True\<rparr>
                              else s\<lparr>dist_means := Some w\<rparr>)"
      have eq: "sample_wf_iter d le bs s x =
          (if calculating_energy s2
           then (case accumulate le bs (fst x) (snd x) s2 of
                   (z2, r2) \<Rightarrow> ((if found then [(fst x, None, None)] else []) @ z2, r2))
           else ((if found then [(fst x, None, None)] else []), Inr s2))"
        using Some False
        by (simp add: sample_wf_iter_def dm0_def[symmetric] w_def[symmetric] Let_def
            found_def s2_def)
      show ?thesis
      proof (cases "calculating_energy s2")
        case True
        obtain z2 r2 where acc: "accumulate le bs (fst x) (snd x) s2 = (z2, r2)"
          by (cases "accumulate le bs (fst x) (snd x) s2")
        from eq True acc assms have zs: "zs = (if found then [(fst x, None, None)] else []) @ z2"
          and r: "r = r2" by simp_all
        have "found \<or> calculating_energy s" using True by (auto simp: s2_def split: if_splits)
        moreover have "found \<Longrightarrow> \<not> calculating_energy s" by (simp add: found_def)
        moreover have "blocks s2 = blocks s" by (simp add: s2_def)
        ultimately have "\<exists>pre z2' s2'. zs = pre @ z2'
             \<and> accumulate le bs (fst x) (snd x) s2' = (z2', r) \<and> calculating_energy s2'
             \<and> blocks s2' = blocks s
             \<and> (pre = [] \<and> calculating_energy s
                 \<or> pre = [(fst x, None, None)] \<and> \<not> calculating_energy s)"
          using zs r acc True
          by (intro exI[of _ "if found then [(fst x, None, None)] else []"] exI[of _ z2]
              exI[of _ s2]) auto
        then show ?thesis by blast
      next
        case False
        then have nf: "\<not> found" "\<not> calculating_energy s" by (auto simp: s2_def split: if_splits)
        from eq False assms nf have "zs = [] \<and> r = Inr s2" by simp
        moreover have "blocks s2 = blocks s" by (simp add: s2_def)
        ultimately show ?thesis using False nf by simp
      qed
    qed
  qed
qed

lemma iter_signals:
  assumes "sample_wf_iter d le bs s x = (zs, r)"
  shows "length (signals zs) \<le> (if calculating_energy s then 0 else 1)
       \<and> (signals zs \<noteq> [] \<longrightarrow> (case r of Inr s' \<Rightarrow> calculating_energy s' | Inl e \<Rightarrow> True))"
proof -
  from iter_cases[OF assms] consider
      (err) "zs = []"
    | (acc) pre z2 s2 where "zs = pre @ z2" "accumulate le bs (fst x) (snd x) s2 = (z2, r)"
        "calculating_energy s2"
        "pre = [] \<and> calculating_energy s \<or> pre = [(fst x, None, None)] \<and> \<not> calculating_energy s"
    by blast
  then show ?thesis
  proof cases
    case err
    then show ?thesis by simp
  next
    case acc
    from accumulate_signals[OF acc(2)] have z2: "signals z2 = []" .
    have fl: "case r of Inr s' \<Rightarrow> calculating_energy s' | Inl e \<Rightarrow> True"
      using accumulate_flag[of le bs "fst x" "snd x" s2 z2] acc(2,3) by (cases r) auto
    from acc(4) have "length (signals pre) \<le> (if calculating_energy s then 0 else 1)"
      by (auto simp: signals_def)
    then show ?thesis using acc(1) z2 fl by simp
  qed
qed

lemma run_signals:
  "length (signals (fst (sample_wf d le bs s xs))) \<le> (if calculating_energy s then 0 else 1)"
proof (induction xs arbitrary: s)
  case Nil
  then show ?case by simp
next
  case (Cons x xs)
  obtain zs r where it: "sample_wf_iter d le bs s x = (zs, r)" by (cases "sample_wf_iter d le bs s x")
  note sg = iter_signals[OF it]
  show ?case
  proof (cases r)
    case (Inl e)
    then show ?thesis using it sg by simp
  next
    case (Inr s1)
    obtain ys r' where rest: "sample_wf d le bs s1 xs = (ys, r')" by (cases "sample_wf d le bs s1 xs")
    have ih: "length (signals ys) \<le> (if calculating_energy s1 then 0 else 1)"
      using Cons.IH[of s1] rest by simp
    have c1: "calculating_energy s \<Longrightarrow> calculating_energy s1"
      using iter_flag_mono it Inr by blast
    have c2: "signals zs \<noteq> [] \<Longrightarrow> calculating_energy s1" using sg Inr by simp
    have "length (signals zs) + length (signals ys) \<le> (if calculating_energy s then 0 else 1)"
      using sg ih c1 c2 by (cases "signals zs = []") (auto split: if_splits)
    then show ?thesis using it Inr rest by simp
  qed
qed

lemma run_append:
  "sample_wf d le bs s (xs @ xs') =
     (case sample_wf d le bs s xs of
        (ys, Inl e) \<Rightarrow> (ys, Inl e)
      | (ys, Inr s') \<Rightarrow> (case sample_wf d le bs s' xs' of (zs, r) \<Rightarrow> (ys @ zs, r)))"
  by (induction xs arbitrary: s) (auto split: prod.splits sum.splits)


text \<open>
  Claim C1, as the code has it. After any run of \<^verbatim>\<open>sample_wf\<close> from its initial
  locals, a turn that raises nothing leaves a window of \<open>5 * block_size\<close> distance
  summaries. If the loop was still warming up, it starts accumulating in this turn
  exactly when the oldest slot of the window is positive and the standard deviation of
  the \<^emph>\<open>oldest\<close> \<open>block_size\<close> entries is strictly smaller than that of the
  \<^emph>\<open>newest\<close> \<open>block_size\<close> entries, and exactly then the turn yields
  \<open>(step, None, None)\<close>. Once accumulating, every later state of the run is
  accumulating, and a whole run yields the signal at most once.
\<close>

theorem equilibration_transition:
  assumes "sample_wf d le bs (sample_wf_init bl eq) xs = (ys, Inr s)"
    and "sample_wf_iter d le bs s (n, x0) = (zs, Inr s')"
  shows "(\<exists>w. dist_means s' = Some w \<and> length w = 5 * bs \<and>
            (\<not> calculating_energy s \<longrightarrow>
               (calculating_energy s' \<longleftrightarrow>
                  0 < w ! 0 \<and> nan_less (torch_std (take bs w)) (torch_std (drop (4 * bs) w)))
             \<and> ((n, None, None) \<in> set zs \<longleftrightarrow> calculating_energy s')))
       \<and> (calculating_energy s' \<longrightarrow>
            (\<forall>xs' ys' s''. sample_wf d le bs s' xs' = (ys', Inr s'') \<longrightarrow> calculating_energy s''))
       \<and> (\<forall>xs'. length (signals (ys @ zs @ fst (sample_wf d le bs s' xs'))) \<le> 1)"
proof (intro conjI allI impI)
  have "dist_means (sample_wf_init bl eq :: 'a loop_state) = None"
    by (simp add: sample_wf_init_def)
  with run_window[OF assms(1)]
  have inv: "dist_means s = None \<or> (\<exists>w. dist_means s = Some w \<and> length w = 5 * bs)" by simp
  from iter_window[OF assms(2) inv]
  show "\<exists>w. dist_means s' = Some w \<and> length w = 5 * bs \<and>
            (\<not> calculating_energy s \<longrightarrow>
               (calculating_energy s' \<longleftrightarrow>
                  0 < w ! 0 \<and> nan_less (torch_std (take bs w)) (torch_std (drop (4 * bs) w)))
             \<and> ((n, None, None) \<in> set zs \<longleftrightarrow> calculating_energy s'))"
    by blast
next
  fix xs' ys' s''
  assume "calculating_energy s'" "sample_wf d le bs s' xs' = (ys', Inr s'')"
  then show "calculating_energy s''" using run_flag_mono by blast
next
  fix xs'
  obtain ys' r' where rest: "sample_wf d le bs s' xs' = (ys', r')"
    by (cases "sample_wf d le bs s' xs'")
  have "sample_wf d le bs (sample_wf_init bl eq) (xs @ (n, x0) # xs') = (ys @ zs @ ys', r')"
    using assms rest by (simp add: run_append)
  then have "ys @ zs @ ys' = fst (sample_wf d le bs (sample_wf_init bl eq) (xs @ (n, x0) # xs'))"
    by simp
  moreover have "length (signals (fst (sample_wf d le bs (sample_wf_init bl eq) (xs @ (n, x0) # xs'))))
      \<le> 1"
    using run_signals[of d le bs "sample_wf_init bl eq" "xs @ (n, x0) # xs'"]
    by (simp split: if_splits)
  ultimately show "length (signals (ys @ zs @ fst (sample_wf d le bs s' xs'))) \<le> 1"
    using rest by simp
qed

text \<open>
  Claim C1 as stated fails. With blocks of two and the distance summaries
  \<open>1, 3, 1, 1, 1, 1, 1, 1, 1, 1\<close> the window is full after the tenth turn, and the
  newest two entries have a strictly smaller standard deviation (\<open>0\<close>) than the
  oldest two (\<open>sqrt 2\<close>); the loop yields nothing and is still warming up.
\<close>

theorem equilibration_counterexample:
  "sample_wf (\<lambda>r. r) (\<lambda>r. [r]) 2 (sample_wf_init [] True)
     [(0, 1), (1, 3), (2, 1), (3, 1), (4, 1), (5, 1), (6, 1), (7, 1), (8, 1), (9, 1)]
   = ([], Inr \<lparr>dist_means = Some [1, 3, 1, 1, 1, 1, 1, 1, 1, 1], calculating_energy = False,
               buffer = [], buffer_rs = [], blocks = []\<rparr>)
   \<and> (0::real) < [1, 3, 1, 1, 1, 1, 1, 1, 1, 1] ! 0
   \<and> nan_less (torch_std (drop 8 [1, 3, 1, 1, 1, 1, 1, 1, 1, 1]))
        (torch_std (take 2 [1, 3, 1, 1, 1, 1, 1, 1, 1, 1]))"
  by (simp add: sample_wf_defs eval_nat_numeral)

text \<open>
  A run in which the transition happens: nine turns with summary \<open>1\<close>, then a turn
  with summary \<open>3\<close>, so that the oldest two entries are \<open>1, 1\<close> and the newest
  two are \<open>1, 3\<close>.
\<close>

theorem equilibration_transition_witness:
  "(case sample_wf (\<lambda>r. r) (\<lambda>r. [r]) 2 (sample_wf_init [] True)
           [(0, 1), (1, 1), (2, 1), (3, 1), (4, 1), (5, 1), (6, 1), (7, 1), (8, 1 :: real)] of
      (ys, Inl e) \<Rightarrow> False
    | (ys, Inr s) \<Rightarrow> \<not> calculating_energy s \<and>
        (case sample_wf_iter (\<lambda>r. r) (\<lambda>r. [r]) 2 s (9, 3) of
           (zs, Inl e) \<Rightarrow> False
         | (zs, Inr s') \<Rightarrow>
             dist_means s' = Some [1, 1, 1, 1, 1, 1, 1, 1, 1, 3]
           \<and> calculating_energy s' \<and> (9, None, None) \<in> set zs
           \<and> length (signals (ys @ zs @ fst (sample_wf (\<lambda>r. r) (\<lambda>r. [r]) 2 s'
                                [(10, 1), (11, 2)]))) \<le> 1))"
proof -
  let ?s = "\<lparr>dist_means = Some [0, 1, 1, 1, 1, 1, 1, 1, 1, 1], calculating_energy = False,
             buffer = [], buffer_rs = [], blocks = []\<rparr> :: real loop_state"
  let ?s' = "\<lparr>dist_means = Some [1, 1, 1, 1, 1, 1, 1, 1, 1, 3], calculating_energy = True,
              buffer = [[3]], buffer_rs = [3], blocks = []\<rparr> :: real loop_state"
  have run:
    "sample_wf (\<lambda>r. r) (\<lambda>r. [r]) 2 (sample_wf_init [] True)
       [(0, 1), (1, 1), (2, 1), (3, 1), (4, 1), (5, 1), (6, 1), (7, 1), (8, 1 :: real)] = ([], Inr ?s)"
    by (simp add: sample_wf_defs eval_nat_numeral)
  have turn: "sample_wf_iter (\<lambda>r. r) (\<lambda>r. [r]) 2 ?s (9, 3) = ([(9, None, None)], Inr ?s')"
    by (simp add: sample_wf_defs eval_nat_numeral)
  note t = equilibration_transition[OF run turn]
  from t have "calculating_energy ?s' \<longleftrightarrow> (0::real) < [1, 1, 1, 1, 1, 1, 1, 1, 1, 3] ! 0
       \<and> nan_less (torch_std (take 2 [1, 1, 1, 1, 1, 1, 1, 1, 1, 3]))
           (torch_std (drop (4 * 2) [1, 1, 1, 1, 1, 1, 1, 1, 1, 3]))"
    by simp
  moreover from t have "length (signals ([] @ [(9, None, None)] @
       fst (sample_wf (\<lambda>r. r) (\<lambda>r. [r]) 2 ?s' [(10, 1), (11, 2)]))) \<le> 1"
    by blast
  ultimately show ?thesis by (simp add: run turn signals_def del: sample_wf.simps)
qed

section \<open>Block accumulation\<close>

lemma div_split_add: "0 < (b::nat) \<Longrightarrow> p div b + (p mod b + n) div b = (p + n) div b"
  by (metis (no_types, lifting) add.assoc div_mult_self4 mult_div_mod_eq not_gr_zero)

lemma mod_split_add: "((p::nat) mod b + n) mod b = (p + n) mod b"
  by (simp add: mod_add_left_eq)

lemma accumulate_counts:
  assumes "accumulate le bs n x0 s = (ys, Inr s')" "length (buffer s) < bs"
  shows "length (blocks s') = length (blocks s) + (length (buffer s) + 1) div bs
       \<and> length (buffer s') = (length (buffer s) + 1) mod bs
       \<and> calculating_energy s' = calculating_energy s"
  using assms
  by (auto simp: accumulate_def Let_def split: if_splits)

lemma iter_counts:
  assumes "sample_wf_iter d le bs s x = (ys, Inr s')" "calculating_energy s"
    "length (buffer s) < bs"
  shows "length (blocks s') = length (blocks s) + (length (buffer s) + 1) div bs
       \<and> length (buffer s') = (length (buffer s) + 1) mod bs
       \<and> calculating_energy s'"
  using assms accumulate_counts[of le bs "fst x" "snd x" _ ys s']
  by (auto simp: sample_wf_iter_def Let_def split: if_splits option.splits prod.splits)

text \<open>
  While energies are accumulated, a run that raises nothing commits one block per
  \<open>bs\<close> turns: the invariant of the loop, for any number of values already buffered.
\<close>

lemma run_counts:
  "sample_wf d le bs s xs = (ys, Inr s') \<Longrightarrow> calculating_energy s \<Longrightarrow>
   length (buffer s) < bs \<Longrightarrow>
   length (blocks s') = length (blocks s) + (length (buffer s) + length xs) div bs
     \<and> length (buffer s') = (length (buffer s) + length xs) mod bs
     \<and> calculating_energy s'"
proof (induction xs arbitrary: s ys)
  case Nil
  then show ?case by simp
next
  case (Cons x xs)
  from Cons.prems(1) obtain y1 s1 y2 where
    it: "sample_wf_iter d le bs s x = (y1, Inr s1)" and
    rest: "sample_wf d le bs s1 xs = (y2, Inr s')"
    by (auto split: prod.splits sum.splits)
  from iter_counts[OF it Cons.prems(2,3)] have
    b1: "length (blocks s1) = length (blocks s) + (length (buffer s) + 1) div bs" and
    u1: "length (buffer s1) = (length (buffer s) + 1) mod bs" and
    c1: "calculating_energy s1"
    by auto
  from Cons.prems(3) have pos: "0 < bs" by simp
  then have lt: "length (buffer s1) < bs" using u1 by simp
  from Cons.IH[OF rest c1 lt] have
    b2: "length (blocks s') = length (blocks s1) + (length (buffer s1) + length xs) div bs" and
    u2: "length (buffer s') = (length (buffer s1) + length xs) mod bs" and
    c2: "calculating_energy s'"
    by auto
  have e0: "length (buffer s) + 1 + length xs = length (buffer s) + length (x # xs)" by simp
  have e1: "((length (buffer s) + 1) mod bs + length xs) mod bs
          = (length (buffer s) + length (x # xs)) mod bs"
    using mod_split_add[of "length (buffer s) + 1" bs "length xs"] e0 by simp
  have e2: "(length (buffer s) + 1) div bs + ((length (buffer s) + 1) mod bs + length xs) div bs
          = (length (buffer s) + length (x # xs)) div bs"
    using div_split_add[OF pos, of "length (buffer s) + 1" "length xs"] e0 by simp
  from b2 b1 u1 e2
  have "length (blocks s') = length (blocks s) + (length (buffer s) + length (x # xs)) div bs"
    by simp
  moreover from u2 u1 e1
  have "length (buffer s') = (length (buffer s) + length (x # xs)) mod bs"
    by simp
  ultimately show ?case using c2 by simp
qed

text \<open>
  Claim C9 (block commit law). Once accumulation has started with an empty buffer, a run
  of \<^verbatim>\<open>sample_wf\<close> that raises nothing and is fed \<open>k * block_size\<close> local-energy
  values appends exactly \<open>k\<close> blocks and leaves no value buffered; fed
  \<open>k * block_size + r\<close> values with \<open>0 < r < block_size\<close> it appends exactly \<open>k\<close>
  blocks and leaves exactly \<open>r\<close> values buffered. One turn of the loop feeds one value.
\<close>

theorem block_commit_law:
  assumes "0 < bs" "calculating_energy s" "buffer s = []"
    and "sample_wf d le bs s xs = (ys, Inr s')"
  shows "(length xs = k * bs \<longrightarrow>
            length (blocks s') = length (blocks s) + k \<and> length (buffer s') = 0)
       \<and> (length xs = k * bs + r \<and> 0 < r \<and> r < bs \<longrightarrow>
            length (blocks s') = length (blocks s) + k \<and> length (buffer s') = r)"
proof -
  have lt: "length (buffer s) < bs" using assms(1,3) by simp
  from run_counts[OF assms(4) assms(2) lt] assms(3) have
    b: "length (blocks s') = length (blocks s) + length xs div bs" and
    u: "length (buffer s') = length xs mod bs" by auto
  show ?thesis using b u assms(1) by auto
qed

text \<open>
  Two walkers, blocks of two values: four turns commit two blocks and buffer nothing,
  a fifth turn leaves one value buffered.
\<close>

theorem block_commit_law_witness:
  "(case sample_wf (\<lambda>r. 1) (\<lambda>r. r) 2 (sample_wf_init [] False)
           [(0, [1, 3]), (1, [2, 4]), (2, [5, 5]), (3, [0, 2 :: real])] of
      (ys, Inr s') \<Rightarrow> length (blocks s') = 2 \<and> length (buffer s') = 0
    | (ys, Inl e) \<Rightarrow> False)
 \<and> (case sample_wf (\<lambda>r. 1) (\<lambda>r. r) 2 (sample_wf_init [] False)
           [(0, [1, 3]), (1, [2, 4]), (2, [5, 5]), (3, [0, 2]), (4, [1, 1 :: real])] of
      (ys, Inr s') \<Rightarrow> length (blocks s') = 2 \<and> length (buffer s') = 1
    | (ys, Inl e) \<Rightarrow> False)"
proof -
  let ?s = "sample_wf_init [] False :: real list loop_state"
  let ?four = "[(0, [1, 3]), (1, [2, 4]), (2, [5, 5]), (3, [0, 2 :: real])] :: (int \<times> real list) list"
  let ?five = "?four @ [(4, [1, 1])]"
  have s: "calculating_energy ?s" "buffer ?s = []"
    by (simp_all add: sample_wf_init_def)
  obtain y4 s4 where r4: "sample_wf (\<lambda>r. 1) (\<lambda>r. r) 2 ?s ?four = (y4, Inr s4)"
    by (simp add: sample_wf_defs)
  obtain y5 s5 where r5: "sample_wf (\<lambda>r. 1) (\<lambda>r. r) 2 ?s ?five = (y5, Inr s5)"
    by (simp add: sample_wf_defs)
  have "length (blocks s4) = 2 \<and> length (buffer s4) = 0"
    using block_commit_law[OF _ s r4, of 2 0] by (simp add: sample_wf_init_def)
  moreover have "length (blocks s5) = 2 \<and> length (buffer s5) = 1"
    using block_commit_law[OF _ s r5, of 2 1] by (simp add: sample_wf_init_def)
  ultimately show ?thesis using r4 r5 by simp
qed

section \<open>The energy estimate\<close>

lemma sum_columns:
  "\<forall>r\<in>set M. length r = w \<Longrightarrow>
   (\<Sum>i\<leftarrow>[0..<w]. \<Sum>r\<leftarrow>M. (r ! i :: real)) = (\<Sum>r\<leftarrow>M. sum_list r)"
proof (induction M)
  case Nil
  then show ?case by simp
next
  case (Cons r M)
  have "(\<Sum>i\<leftarrow>[0..<w]. \<Sum>r\<leftarrow>r # M. r ! i) = (\<Sum>i\<leftarrow>[0..<w]. r ! i) + (\<Sum>i\<leftarrow>[0..<w]. \<Sum>r\<leftarrow>M. r ! i)"
    by (simp add: sum_list_addf)
  moreover have "(\<Sum>i\<leftarrow>[0..<w]. r ! i) = sum_list r"
    using Cons.prems by (metis list.set_intros(1) map_nth)
  ultimately show ?case using Cons by simp
qed

lemma sum_list_concat_rows: "sum_list (concat xss) = (\<Sum>xs\<leftarrow>xss. sum_list (xs :: real list))"
  by (induction xss) simp_all

lemma concat_columns_sum:
  assumes "M \<noteq> []" "rectangular M"
  shows "sum_list (concat (columns M)) = (\<Sum>r\<leftarrow>M. sum_list (r :: real list))"
proof -
  have r: "\<forall>r\<in>set M. length r = length (hd M)"
    using assms(2) by (simp add: rectangular_def list_all_iff)
  have "sum_list (concat (columns M)) = (\<Sum>i\<leftarrow>[0..<length (hd M)]. \<Sum>r\<leftarrow>M. r ! i)"
    by (simp add: columns_def sum_list_concat_rows comp_def)
  then show ?thesis using sum_columns[OF r] by simp
qed

lemma concat_columns_length:
  "length (concat (columns M)) = length (hd M) * length M"
  by (simp add: columns_def length_concat comp_def sum_list_triv)


lemma sum_list_div_const: "(\<Sum>x\<leftarrow>xs. f x / (c::real)) = (\<Sum>x\<leftarrow>xs. f x) / c"
  by (induction xs) (simp_all add: add_divide_distrib)

lemma energy_estimate_formula:
  assumes "bl \<noteq> []" "rectangular bl"
  defines "w \<equiv> length (hd bl)"
  shows "(\<forall>b\<in>set bl. length b = w)
       \<and> fst (energy_estimate bl) =
           (if w = 0 then None else Some (avg (map (\<lambda>b. avg (map fst b)) bl)))
       \<and> snd (energy_estimate bl) =
           map_option (\<lambda>sd. sd / sqrt (real w))
             (np_std (map (\<lambda>i. avg (map (\<lambda>b. fst (b ! i)) bl)) [0..<w]))"
proof (intro conjI)
  let ?M = "map (map fst) bl"
  show r: "\<forall>b\<in>set bl. length b = w"
    using assms(2) by (simp add: rectangular_def list_all_iff w_def)
  have hdM: "length (hd ?M) = w" using assms(1) by (simp add: w_def hd_map)
  have rM: "rectangular ?M" using r hdM by (simp add: rectangular_def list_all_iff)
  have M0: "?M \<noteq> []" using assms(1) by simp
  have cols: "columns ?M = map (\<lambda>i. map (\<lambda>b. fst (b ! i)) bl) [0..<w]"
    using r by (simp add: columns_def hdM comp_def)
  have len: "length (concat (columns ?M)) = w * length bl"
    using concat_columns_length[of ?M] hdM by simp
  have sum: "sum_list (concat (columns ?M)) = (\<Sum>b\<leftarrow>bl. sum_list (map fst b))"
    using concat_columns_sum[OF M0 rM] by (simp add: comp_def)
  show "fst (energy_estimate bl) =
           (if w = 0 then None else Some (avg (map (\<lambda>b. avg (map fst b)) bl)))"
  proof (cases "w = 0")
    case True
    then show ?thesis using len by (simp add: energy_estimate_def Let_def mean_def)
  next
    case False
    then have ne: "concat (columns ?M) \<noteq> []" using len assms(1) by (metis length_0_conv mult_is_0)
    have "(\<Sum>b\<leftarrow>bl. avg (map fst b)) = (\<Sum>b\<leftarrow>bl. sum_list (map fst b)) / real w"
      using r sum_list_div_const[of "\<lambda>b. sum_list (map fst b)" "real w" bl]
      by (simp add: avg_def cong: map_cong)
    then have "avg (map (\<lambda>b. avg (map fst b)) bl) = avg (concat (columns ?M))"
      using sum len by (simp add: avg_def comp_def)
    then show ?thesis using False ne by (simp add: energy_estimate_def Let_def mean_def)
  qed
  show "snd (energy_estimate bl) =
           map_option (\<lambda>sd. sd / sqrt (real w))
             (np_std (map (\<lambda>i. avg (map (\<lambda>b. fst (b ! i)) bl)) [0..<w]))"
    by (simp add: energy_estimate_def Let_def cols comp_def)
qed

text \<open>
  Claim C2, as the code has it. Whenever a turn of \<^verbatim>\<open>sample_wf\<close> commits a block, the
  last thing it yields is the energy recomputed from all committed blocks, which all
  have one entry per walker (\<open>w\<close> walkers): the nominal value is the mean of the block
  means (the mean over the walkers of the nominal values of a block), and the standard
  deviation is numpy's standard deviation, \<^emph>\<open>across the walkers\<close>, of each walker's
  mean over the committed blocks, divided by the square root of the number of
  \<^emph>\<open>walkers\<close>.
\<close>

theorem energy_estimate_on_commit:
  assumes "sample_wf_iter d le bs s (n, x0) = (zs, Inr s')"
    and "blocks s' \<noteq> blocks s"
  shows "\<exists>w e brs. zs \<noteq> [] \<and> last zs = (n, Some e, Some brs)
       \<and> (\<forall>b\<in>set (blocks s'). length b = w)
       \<and> fst e = (if w = 0 then None
                  else Some (avg (map (\<lambda>b. avg (map fst b)) (blocks s'))))
       \<and> snd e = map_option (\<lambda>sd. sd / sqrt (real w))
                   (np_std (map (\<lambda>i. avg (map (\<lambda>b. fst (b ! i)) (blocks s'))) [0..<w]))"
proof -
  from iter_cases[OF assms(1)] assms(2) obtain pre z2 s2 where
    zs: "zs = pre @ z2" and acc: "accumulate le bs n x0 s2 = (z2, Inr s')"
    and s2: "blocks s2 = blocks s"
    by auto
  from acc assms(2) s2 have
    1: "z2 = [(n, Some (energy_estimate (blocks s')), Some (buffer_rs s2 @ [x0]))]"
    and 2: "blocks s' \<noteq> []" "rectangular (blocks s')"
    by (auto simp: accumulate_def Let_def split: if_splits)
  from energy_estimate_formula[OF 2] zs 1 show ?thesis by auto
qed


text \<open>
  Claim C2 as stated fails. One walker, blocks of two, local energies \<open>0, 0, 2, 2\<close>:
  the block means are \<open>0\<close> and \<open>2\<close>. The energy yielded with the second block has
  standard deviation \<open>0\<close>, where the standard deviation of the block means over the
  square root of the number of blocks is \<open>1 / sqrt 2\<close>.
\<close>

theorem energy_estimate_counterexample:
  "sample_wf (\<lambda>r. 1) (\<lambda>r. [r]) 2 (sample_wf_init [] False)
     [(0, 0), (1, 0), (2, 2), (3, 2)]
   = ([(1, Some (Some 0, Some 0), Some [0, 0]), (3, Some (Some 1, Some 0), Some [2, 2])],
      Inr \<lparr>dist_means = Some [0, 0, 0, 0, 0, 0, 1, 1, 1, 1], calculating_energy = True,
             buffer = [], buffer_rs = [], blocks = [[(0, Some 0)], [(2, Some 0)]]\<rparr>)
   \<and> energy_estimate_spec [0, 2] = (Some 1, Some (1 / sqrt 2))
   \<and> 1 / sqrt 2 \<noteq> (0::real)"
  by (simp add: sample_wf_defs energy_estimate_spec_def eval_nat_numeral)

text \<open>
  Two walkers, blocks of two: the turn that buffers the second pair of local energies
  commits the first block.
\<close>

theorem energy_estimate_on_commit_witness:
  "sample_wf_iter (\<lambda>r. 1) (\<lambda>r. r) 2
     \<lparr>dist_means = Some [0, 0, 0, 0, 0, 0, 0, 0, 0, 1], calculating_energy = True,
      buffer = [[1, 3]], buffer_rs = [[1, 3]], blocks = []\<rparr> (1, [2, 4])
   = ([(1, Some (Some (5 / 2), Some (1 / sqrt 2)), Some [[1, 3], [2, 4]])],
      Inr \<lparr>dist_means = Some [0, 0, 0, 0, 0, 0, 0, 0, 1, 1], calculating_energy = True,
             buffer = [], buffer_rs = [], blocks = [reduce_block [[1, 3], [2, 4]]]\<rparr>)
   \<and> (\<exists>w e brs. (1, Some (Some (5 / 2), Some (1 / sqrt 2)), Some [[1, 3], [2, 4 :: real]])
                    = (1 :: int, Some e, Some brs)
        \<and> (\<forall>b\<in>set [reduce_block [[1, 3], [2, 4]]]. length b = w)
        \<and> fst e = (if w = 0 then None
                   else Some (avg (map (\<lambda>b. avg (map fst b)) [reduce_block [[1, 3], [2, 4]]])))
        \<and> snd e = map_option (\<lambda>sd. sd / sqrt (real w))
                    (np_std (map (\<lambda>i. avg (map (\<lambda>b. fst (b ! i))
                       [reduce_block [[1, 3], [2, 4]]])) [0..<w])))"
proof -
  let ?s = "\<lparr>dist_means = Some [0, 0, 0, 0, 0, 0, 0, 0, 0, 1], calculating_energy = True,
      buffer = [[1, 3]], buffer_rs = [[1, 3]], blocks = []\<rparr> :: real list loop_state"
  let ?s' = "\<lparr>dist_means = Some [0, 0, 0, 0, 0, 0, 0, 0, 1, 1], calculating_energy = True,
             buffer = [], buffer_rs = [], blocks = [reduce_block [[1, 3], [2, 4]]]\<rparr>
             :: real list loop_state"
  have turn: "sample_wf_iter (\<lambda>r. 1) (\<lambda>r. r) 2 ?s (1, [2, 4])
       = ([(1, Some (Some (5 / 2), Some (1 / sqrt 2)), Some [[1, 3], [2, 4]])], Inr ?s')"
    by (simp add: sample_wf_defs eval_nat_numeral)
  have neq: "blocks ?s' \<noteq> blocks ?s" by simp
  from energy_estimate_on_commit[OF turn neq] have
    "\<exists>w e brs. (1, Some (Some (5 / 2), Some (1 / sqrt 2)), Some [[1, 3], [2, 4 :: real]])
                    = (1 :: int, Some e, Some brs)
        \<and> (\<forall>b\<in>set [reduce_block [[1, 3], [2, 4]]]. length b = w)
        \<and> fst e = (if w = 0 then None
                   else Some (avg (map (\<lambda>b. avg (map fst b)) [reduce_block [[1, 3], [2, 4]]])))
        \<and> snd e = map_option (\<lambda>sd. sd / sqrt (real w))
                    (np_std (map (\<lambda>i. avg (map (\<lambda>b. fst (b ! i))
                       [reduce_block [[1, 3], [2, 4]]])) [0..<w]))"
    by simp
  with turn show ?thesis by blast
qed

section \<open>One step of the sampler\<close>

subsection \<open>The example step\<close>

lemma exp_m1_lower: "1 < exp (- 1 :: real) * 4"
proof -
  have "exp (1::real) \<le> 3" by (rule exp_le)
  then have "exp (1::real) < 4" by simp
  moreover have "0 < exp (1::real)" by simp
  ultimately have "1 / 4 < 1 / exp (1::real)" by (simp add: field_simps)
  then show ?thesis by (simp add: exp_minus inverse_eq_divide)
qed

lemma exp_m1_upper: "\<not> 1 < exp (- 1 :: real) * 2"
proof -
  have "2 \<le> exp (1::real)" using exp_ge_add_one_self[of 1] by simp
  then have "exp (- 1 :: real) \<le> 1 / 2" by (simp add: exp_minus field_simps)
  then show ?thesis by simp
qed

lemma demo_sampler_fields:
  "kind demo_sampler = Langevin" "rs demo_sampler = [[0], [1]]" "tau demo_sampler = 1 / 4"
  "max_age demo_sampler = None" "n_first_certain demo_sampler = 0"
  "log_psi_threshold demo_sampler = None" "target_acceptance demo_sampler = Some (57 / 100)"
  "n_discard demo_sampler = 0" "n_decorrelate demo_sampler = 0"
  "log_psis demo_sampler = [0, - 1]" "sign_psis demo_sampler = [1, 1]"
  "forces demo_sampler = [[0], [0]]" "ages demo_sampler = [0, 0]"
  "step_counter demo_sampler = 0" "totalstep demo_sampler = 0"
  by (simp_all add: demo_sampler_def)

lemma demo_proposal: "proposal demo_sampler demo_draws = [[1 / 2], [3 / 2]]"
  by (simp add: proposal_def zip_with2_def randn_like_def demo_sampler_fields demo_draws_def
       real_sqrt_divide)

lemma demo_qforce: "qforce demo_collab demo_sampler [[1 / 2], [3 / 2]]
     = Inr ([[0], [0]], [- (1 / 2), - (3 / 2)], [1, 1])"
  by (simp add: qforce_def demo_collab_def)

lemma demo_acceptance_prob: "acceptance_prob demo_collab demo_sampler [[1 / 2], [3 / 2]]
    = Inr ([exp (- 1), exp (- 1)], [- (1 / 2), - (3 / 2)], [1, 1], [[[0], [0]]])"
  by (simp add: acceptance_prob_def demo_qforce same_shape_def log_G_ratio_def
      demo_sampler_fields)

lemma demo_accept_mask:
  "accept_mask demo_sampler demo_draws [exp (- 1), exp (- 1)] [- (1 / 2), - (3 / 2)]
    = [True, False]"
  by (simp add: accept_mask_def accept_first_certain_def accept_max_age_def
      accept_threshold_def accept_draw_def demo_sampler_fields demo_draws_def
      exp_m1_lower exp_m1_upper)

lemma demo_step:
  "step demo_collab demo_draws demo_sampler =
     (demo_sampler\<lparr>ages := [0, 1], rs := [[1 / 2], [1]], log_psis := [- (1 / 2), - 1],
         sign_psis := [1, 1], forces := [[0], [0]], tau := 25 / 114,
         step_counter := 1, totalstep := 1\<rparr>,
      Inr ([[1 / 2], [1]], [- (1 / 2), - 1], [1, 1],
           \<lparr>info_acceptance = 1 / 2, info_age = [0, 1], info_tau = 1 / 4\<rparr>))"
  by (simp add: step_def demo_proposal demo_acceptance_prob demo_accept_mask Let_def
      demo_sampler_fields assign_where_def where_assign_def extra_vars_def adjust_tau_def
      truthy_def)

lemma demo_aligned: "aligned demo_sampler"
  by (simp add: aligned_def demo_sampler_fields same_shape_def)

lemma boundary_fields:
  "kind boundary_sampler = Langevin" "rs boundary_sampler = [[0]]" "tau boundary_sampler = 1"
  "max_age boundary_sampler = None" "n_first_certain boundary_sampler = 0"
  "log_psi_threshold boundary_sampler = Some 0" "target_acceptance boundary_sampler = None"
  "log_psis boundary_sampler = [0]" "sign_psis boundary_sampler = [1]"
  "forces boundary_sampler = [[0]]" "ages boundary_sampler = [0]"
  "step_counter boundary_sampler = 0" "totalstep boundary_sampler = 0"
  by (simp_all add: boundary_sampler_def)

lemma boundary_proposal: "proposal boundary_sampler demo_draws = [[1]]"
  by (simp add: proposal_def zip_with2_def randn_like_def boundary_fields demo_draws_def)

lemma boundary_acceptance_prob:
  "acceptance_prob flat_collab boundary_sampler [[1]] = Inr ([1], [0], [1], [[[0]]])"
  by (simp add: acceptance_prob_def qforce_def flat_collab_def same_shape_def log_G_ratio_def
      boundary_fields)

lemma demo_draws_fields:
  "randn demo_draws i j = 1" "rand demo_draws i = (if i = 0 then 1 / 4 else 1 / 2)"
  by (simp_all add: demo_draws_def)

lemma boundary_accept_mask: "accept_mask boundary_sampler demo_draws [1] [0] = [False]"
  by (simp add: accept_mask_def accept_first_certain_def accept_max_age_def
      accept_threshold_def accept_draw_def boundary_fields demo_draws_fields)

lemma boundary_step:
  "step flat_collab demo_draws boundary_sampler
       = (boundary_sampler\<lparr>ages := [1], step_counter := 1, totalstep := 1\<rparr>,
          Inr ([[0]], [0], [1], \<lparr>info_acceptance = 0, info_age = [1], info_tau = 1\<rparr>))"
  by (simp add: step_def boundary_proposal boundary_acceptance_prob boundary_accept_mask Let_def
      boundary_fields assign_where_def where_assign_def extra_vars_def adjust_tau_def
      truthy_def)

subsection \<open>What a successful step is\<close>

lemma step_success:
  assumes "step c d s = (s', Inr out)"
  obtains Ps lp' sp' f' where
    "kind s = Langevin"
    "acceptance_prob c s (proposal s d) = Inr (Ps, lp', sp', [f'])"
    "length (rs s) \<noteq> 0" "length sp' = length (rs s)"
    "s' = (assign_where (s\<lparr>ages := map (\<lambda>i. if accept_mask s d Ps lp' ! i then 0 else ages s ! i + 1)
                                  [0..<length (ages s)]\<rparr>) (proposal s d) lp' sp' [f'] (accept_mask s d Ps lp'))
           \<lparr>tau := adjust_tau (target_acceptance s)
                     (real (length (filter id (accept_mask s d Ps lp'))) / real (length (rs s))) (tau s),
            step_counter := step_counter s + 1, totalstep := totalstep s + 1\<rparr>"
    "out = (rs s', log_psis s', sign_psis s',
            \<lparr>info_acceptance = real (length (filter id (accept_mask s d Ps lp'))) / real (length (rs s)),
             info_age = ages s', info_tau = tau s\<rparr>)"
proof -
  obtain Ps lp' sp' extra where ap: "acceptance_prob c s (proposal s d) = Inr (Ps, lp', sp', extra)"
    using assms by (cases "acceptance_prob c s (proposal s d)") (auto simp: step_def Let_def)
  then have k: "kind s = Langevin"
    by (cases "kind s") (auto simp: acceptance_prob_def)
  from ap k obtain f' where e: "extra = [f']"
    by (auto simp: acceptance_prob_def split: sum.splits if_splits)
  show thesis
    apply (rule that[of Ps lp' sp' f'])
    using assms ap k e
    by (auto simp: step_def Let_def assign_where_def extra_vars_def split: if_splits)
qed


lemma where_assign_nth:
  "i < length xs \<Longrightarrow> where_assign xs ys cond ! i = (if cond ! i then ys ! i else xs ! i)"
  by (simp add: where_assign_def)

lemma where_assign_length [simp]: "length (where_assign xs ys cond) = length xs"
  by (simp add: where_assign_def)

lemma word64_succ_nonzero: "0 \<le> sint (a :: 64 word) \<Longrightarrow> a + 1 \<noteq> 0"
  by (metis (mono_tags, lifting) add_minus_cancel less_minus_one_simps(3)
    neg_equal_iff_equal nle_le signed_minus_1 uminus_add_conv_diff
    verit_comp_simplify1(3) verit_minus_simplify(3) zero_neq_one)

lemma word64_succ_sint:
  assumes "sint (a :: 64 word) < 2 ^ 63 - 1"
  shows "sint (a + 1) = sint a + 1"
proof -
  have lo: "- (2 ^ 63) \<le> sint a" using sint_ge[of a] by simp
  have "sint (a + 1) = signed_take_bit 63 (sint a + 1)"
    by (simp add: sint_word_ariths)
  also have "\<dots> = sint a + 1"
    using lo assms by (intro signed_take_bit_int_eq_self) simp_all
  finally show ?thesis .
qed

lemma acceptance_prob_shapes:
  assumes "acceptance_prob c s rs' = Inr (Ps, lp', sp', extra)"
  shows "kind s = Langevin \<and> length rs' = length (rs s) \<and> length lp' = length (rs s)
       \<and> length Ps = length (rs s) \<and> length (log_psis s) = length (rs s)
       \<and> length (forces s) = length (rs s)
       \<and> (\<exists>f'. extra = [f'] \<and> length f' = length (rs s))"
proof -
  have k: "kind s = Langevin" using assms by (cases "kind s") (auto simp: acceptance_prob_def)
  from assms k obtain f' where
    e: "extra = [f']" and sh: "same_shape (rs s) rs'" "same_shape (forces s) rs'"
      "same_shape f' rs'" "length lp' = length rs'" "length (log_psis s) = length rs'"
    and P: "length Ps = length rs'"
    by (auto simp: acceptance_prob_def split: sum.splits if_splits)
  have l: "\<And>xs ys. same_shape xs ys \<Longrightarrow> length xs = length ys"
    by (metis length_map same_shape_def)
  from sh(1-3) have "length (rs s) = length rs'" "length (forces s) = length rs'"
    "length f' = length rs'" by (auto dest: l)
  then show ?thesis using k e sh(4,5) P by simp
qed

lemma accept_mask_length:
  "length (accept_mask s d Ps cand) = length Ps"
  by (simp add: accept_mask_def accept_first_certain_def accept_max_age_def
      accept_threshold_def accept_draw_def split: option.splits)


section \<open>Properties of a step\<close>

text \<open>
  Claim C3, as the code has it. When a threshold \<open>t\<close> is configured, the threshold
  stage of \<^verbatim>\<open>step\<close> accepts every walker whose current log-amplitude is below \<open>t\<close>
  and whose candidate improves on it, whatever the Bernoulli draw; it rejects every
  other walker whose candidate log-amplitude is \<^emph>\<open>not above\<close> \<open>t\<close>; and the remaining
  walkers keep the draw. Without a threshold the draw is kept. With no maximum age and
  past the certain first steps this is the acceptance mask of the step.
\<close>

theorem threshold_override:
  assumes "i < length accepted"
  shows "accept_threshold (Some t) cur cand accepted ! i =
           (if cur ! i < t \<and> cur ! i < cand ! i then True
            else if cand ! i \<le> t then False
            else accepted ! i)
       \<and> accept_threshold None cur cand accepted ! i = accepted ! i
       \<and> (i < length Ps \<longrightarrow> log_psi_threshold s = Some t \<longrightarrow> max_age s = None \<longrightarrow>
            n_first_certain s \<le> step_counter s \<longrightarrow>
            accept_mask s d Ps cand ! i =
              (if log_psis s ! i < t \<and> log_psis s ! i < cand ! i then True
               else if cand ! i \<le> t then False
               else Ps ! i > rand d i))"
  using assms
  by (auto simp: accept_threshold_def accept_mask_def accept_first_certain_def
      accept_max_age_def accept_draw_def)

text \<open>
  Threshold \<open>- 1\<close>: a drawn walker whose candidate falls to \<open>- 3 / 2\<close> is rejected,
  one whose candidate is at \<open>- 1 / 2\<close> keeps its draw, and a walker at \<open>- 2\<close> that
  was not drawn is accepted with its candidate at \<open>- 3 / 2\<close>.
\<close>

theorem threshold_override_witness:
  "accept_threshold (Some (- 1)) [0, - 1] [- (1 / 2), - (3 / 2)] [True, True] ! 1 = False
   \<and> accept_threshold (Some (- 1)) [0, - 1] [- (1 / 2), - (3 / 2)] [True, True] ! 0 = True
   \<and> accept_threshold (Some (- 1)) [- 2, - 1] [- (3 / 2), - (3 / 2)] [False, True] ! 0 = True
   \<and> accept_mask (demo_sampler\<lparr>log_psi_threshold := Some (- 1)\<rparr>) demo_draws
        [exp (- 1), exp (- 1)] [- (1 / 2), - (3 / 2)] ! 0 = True"
proof -
  have 1: "accept_threshold (Some (- 1)) [0, - 1] [- (1 / 2), - (3 / 2)] [True, True] ! 1 = False"
    using threshold_override[of 1 "[True, True]" "- 1" "[0, - 1]" "[- (1 / 2), - (3 / 2)]"]
    by simp
  have 2: "accept_threshold (Some (- 1)) [0, - 1] [- (1 / 2), - (3 / 2)] [True, True] ! 0 = True"
    using threshold_override[of 0 "[True, True]" "- 1" "[0, - 1]" "[- (1 / 2), - (3 / 2)]"]
    by simp
  have 3: "accept_threshold (Some (- 1)) [- 2, - 1] [- (3 / 2), - (3 / 2)] [False, True] ! 0 = True"
    using threshold_override[of 0 "[False, True]" "- 1" "[- 2, - 1]" "[- (3 / 2), - (3 / 2)]"]
    by simp
  have 4: "accept_mask (demo_sampler\<lparr>log_psi_threshold := Some (- 1)\<rparr>) demo_draws
        [exp (- 1), exp (- 1)] [- (1 / 2), - (3 / 2)] ! 0 = True"
    using threshold_override[of 0 "[True, True]" "- 1" "[0, - 1]" "[- (1 / 2), - (3 / 2)]"
        "[exp (- 1), exp (- 1)]" "demo_sampler\<lparr>log_psi_threshold := Some (- 1)\<rparr>" demo_draws]
    by (simp add: demo_sampler_fields demo_draws_def exp_m1_lower)
  from 1 2 3 4 show ?thesis by blast
qed

text \<open>
  Claim C3 as stated fails on the boundary. One walker, threshold \<open>0\<close>, current and
  candidate log-amplitude \<open>0\<close>: the candidate is not below the threshold and the
  walker is not below it either, so the claim lets it keep the Bernoulli draw, which
  accepts (\<open>1 > 1 / 4\<close>). The step rejects it: it stays at \<open>0\<close> with age \<open>1\<close>.
\<close>

theorem threshold_counterexample:
  "acceptance_prob flat_collab boundary_sampler (proposal boundary_sampler demo_draws)
     = Inr ([1], [0], [1], [[[0]]])
   \<and> accept_draw demo_draws [1] = [True]
   \<and> log_psi_threshold boundary_sampler = Some 0
   \<and> log_psis boundary_sampler = [0]
   \<and> accept_mask boundary_sampler demo_draws [1] [0] = [False]
   \<and> step flat_collab demo_draws boundary_sampler
       = (boundary_sampler\<lparr>ages := [1], step_counter := 1, totalstep := 1\<rparr>,
          Inr ([[0]], [0], [1], \<lparr>info_acceptance = 0, info_age = [1], info_tau = 1\<rparr>))"
  by (simp add: boundary_proposal boundary_acceptance_prob boundary_accept_mask boundary_step
      accept_draw_def boundary_fields demo_draws_fields)

text \<open>
  Claim C4. After a call of \<^verbatim>\<open>step\<close> that returns, with acceptance ratio \<open>a\<close> (the
  number of accepted walkers over the number of walkers, as reported in the diagnostics),
  the step size is the one before divided by \<open>target / max a 0.05\<close> when the target is
  truthy, and unchanged when it is \<^verbatim>\<open>None\<close> or zero.
\<close>

theorem tau_update:
  assumes "step c d s = (s', Inr (r, lp, sp, nfo))"
  shows "tau s' = (if truthy (target_acceptance s)
                   then tau s / (the (target_acceptance s) / max (info_acceptance nfo) 0.05)
                   else tau s)
       \<and> (\<exists>Ps lp' sp' extra.
             acceptance_prob c s (proposal s d) = Inr (Ps, lp', sp', extra)
           \<and> info_acceptance nfo
               = real (length (filter id (accept_mask s d Ps lp'))) / real (length (rs s)))"
proof -
  from assms obtain Ps lp' sp' f' where
    ap: "acceptance_prob c s (proposal s d) = Inr (Ps, lp', sp', [f'])"
    and s': "s' = (assign_where (s\<lparr>ages := map (\<lambda>i. if accept_mask s d Ps lp' ! i then 0 else ages s ! i + 1)
                                  [0..<length (ages s)]\<rparr>) (proposal s d) lp' sp' [f'] (accept_mask s d Ps lp'))
           \<lparr>tau := adjust_tau (target_acceptance s)
                     (real (length (filter id (accept_mask s d Ps lp'))) / real (length (rs s))) (tau s),
            step_counter := step_counter s + 1, totalstep := totalstep s + 1\<rparr>"
    and out: "(r, lp, sp, nfo) = (rs s', log_psis s', sign_psis s',
            \<lparr>info_acceptance = real (length (filter id (accept_mask s d Ps lp'))) / real (length (rs s)),
             info_age = ages s', info_tau = tau s\<rparr>)"
    by (rule step_success)
  from out have a: "info_acceptance nfo
      = real (length (filter id (accept_mask s d Ps lp'))) / real (length (rs s))"
    by simp
  from s' have "tau s' = adjust_tau (target_acceptance s)
                     (real (length (filter id (accept_mask s d Ps lp'))) / real (length (rs s))) (tau s)"
    by simp
  then have "tau s' = (if truthy (target_acceptance s)
                   then tau s / (the (target_acceptance s) / max (info_acceptance nfo) 0.05)
                   else tau s)"
    using a by (simp add: adjust_tau_def)
  then show ?thesis using ap a by blast
qed

text \<open>
  The example step: target \<open>0.57\<close>, one of two walkers accepted, step size \<open>1 / 4\<close>
  before and \<open>(1 / 4) / (0.57 / 0.5) = 25 / 114\<close> after.
\<close>

theorem tau_update_witness:
  "(case step demo_collab demo_draws demo_sampler of
      (s', Inr (r, lp, sp, nfo)) \<Rightarrow>
        truthy (target_acceptance demo_sampler) \<and> info_acceptance nfo = 1 / 2
        \<and> tau demo_sampler = 1 / 4 \<and> tau s' = 25 / 114
    | (s', Inl e) \<Rightarrow> False)"
proof -
  obtain s' r lp sp nfo where st: "step demo_collab demo_draws demo_sampler = (s', Inr (r, lp, sp, nfo))"
    and a: "info_acceptance nfo = 1 / 2"
    by (simp add: demo_step)
  have t: "truthy (target_acceptance demo_sampler)"
    by (simp add: truthy_def demo_sampler_fields)
  from tau_update[OF st] t a have "tau s' = 25 / 114"
    by (simp add: demo_sampler_fields)
  then show ?thesis using st t a by (simp add: demo_sampler_fields)
qed

text \<open>
  Claim C5. After a call of \<^verbatim>\<open>step\<close> that returns, on a walker state whose arrays are
  aligned, every walker the acceptance mask accepts has the candidate's positions,
  log-amplitude, sign and force and age \<open>0\<close>, and every walker it rejects has its
  positions, log-amplitude, sign and force from before the step and its age plus one.
  For a non-negative age the new age is \<open>0\<close> exactly for the accepted walkers, and an
  age below the largest 64-bit integer grows by exactly one without wrapping. The
  commit of the fields is \<^verbatim>\<open>assign_where\<close>, modelled from the specification.
\<close>

theorem step_commit:
  assumes "step c d s = (s', Inr out)"
    and "aligned s" and "i < length (rs s)"
  shows "\<exists>Ps lp' sp' f'.
           acceptance_prob c s (proposal s d) = Inr (Ps, lp', sp', [f'])
         \<and> (accept_mask s d Ps lp' ! i \<longrightarrow>
               rs s' ! i = proposal s d ! i \<and> log_psis s' ! i = lp' ! i
             \<and> sign_psis s' ! i = sp' ! i \<and> forces s' ! i = f' ! i
             \<and> ages s' ! i = 0)
         \<and> (\<not> accept_mask s d Ps lp' ! i \<longrightarrow>
               rs s' ! i = rs s ! i \<and> log_psis s' ! i = log_psis s ! i
             \<and> sign_psis s' ! i = sign_psis s ! i \<and> forces s' ! i = forces s ! i
             \<and> ages s' ! i = ages s ! i + 1)
         \<and> (0 \<le> sint (ages s ! i) \<longrightarrow> (ages s' ! i = 0 \<longleftrightarrow> accept_mask s d Ps lp' ! i))
         \<and> (sint (ages s ! i) < 2 ^ 63 - 1 \<longrightarrow> \<not> accept_mask s d Ps lp' ! i \<longrightarrow>
               sint (ages s' ! i) = sint (ages s ! i) + 1)"
proof -
  from assms(1) obtain Ps lp' sp' f' where
    k: "kind s = Langevin"
    and ap: "acceptance_prob c s (proposal s d) = Inr (Ps, lp', sp', [f'])"
    and s': "s' = (assign_where (s\<lparr>ages := map (\<lambda>i. if accept_mask s d Ps lp' ! i then 0 else ages s ! i + 1)
                                  [0..<length (ages s)]\<rparr>) (proposal s d) lp' sp' [f'] (accept_mask s d Ps lp'))
           \<lparr>tau := adjust_tau (target_acceptance s)
                     (real (length (filter id (accept_mask s d Ps lp'))) / real (length (rs s))) (tau s),
            step_counter := step_counter s + 1, totalstep := totalstep s + 1\<rparr>"
    by (rule step_success)
  let ?m = "accept_mask s d Ps lp'"
  from acceptance_prob_shapes[OF ap] have
    sh: "length (log_psis s) = length (rs s)" "length (forces s) = length (rs s)" by auto
  from assms(2) have al: "length (sign_psis s) = length (rs s)" "length (ages s) = length (rs s)"
    by (auto simp: aligned_def)
  have r: "rs s' ! i = (if ?m ! i then proposal s d ! i else rs s ! i)"
    using assms(3) by (simp add: s' assign_where_def extra_vars_def k Let_def where_assign_nth)
  have l: "log_psis s' ! i = (if ?m ! i then lp' ! i else log_psis s ! i)"
    using assms(3) sh by (simp add: s' assign_where_def extra_vars_def k Let_def where_assign_nth)
  have g: "sign_psis s' ! i = (if ?m ! i then sp' ! i else sign_psis s ! i)"
    using assms(3) al by (simp add: s' assign_where_def extra_vars_def k Let_def where_assign_nth)
  have f: "forces s' ! i = (if ?m ! i then f' ! i else forces s ! i)"
    using assms(3) sh by (simp add: s' assign_where_def extra_vars_def k Let_def where_assign_nth)
  have a: "ages s' ! i = (if ?m ! i then 0 else ages s ! i + 1)"
    using assms(3) al by (simp add: s' assign_where_def extra_vars_def k Let_def)
  have z: "0 \<le> sint (ages s ! i) \<Longrightarrow> ages s' ! i = 0 \<longleftrightarrow> ?m ! i"
    using a word64_succ_nonzero[of "ages s ! i"] by auto
  have p: "sint (ages s ! i) < 2 ^ 63 - 1 \<Longrightarrow> \<not> ?m ! i \<Longrightarrow> sint (ages s' ! i) = sint (ages s ! i) + 1"
    using a word64_succ_sint[of "ages s ! i"] by simp
  show ?thesis
    apply (rule exI[of _ Ps], rule exI[of _ lp'], rule exI[of _ sp'], rule exI[of _ f'])
    using ap r l g f a z p by simp
qed

text \<open>The example step: the first walker is accepted, the second is rejected.\<close>

theorem step_commit_witness:
  "aligned demo_sampler \<and>
   (case step demo_collab demo_draws demo_sampler of
      (s', Inr out) \<Rightarrow>
        accept_mask demo_sampler demo_draws [exp (- 1), exp (- 1)] [- (1 / 2), - (3 / 2)]
          = [True, False]
        \<and> rs s' ! 0 = [1 / 2] \<and> log_psis s' ! 0 = - (1 / 2) \<and> ages s' ! 0 = 0
        \<and> rs s' ! 1 = rs demo_sampler ! 1 \<and> log_psis s' ! 1 = log_psis demo_sampler ! 1
        \<and> sign_psis s' ! 1 = sign_psis demo_sampler ! 1
        \<and> forces s' ! 1 = forces demo_sampler ! 1 \<and> ages s' ! 1 = ages demo_sampler ! 1 + 1
    | (s', Inl e) \<Rightarrow> False)"
proof -
  obtain s' out where st: "step demo_collab demo_draws demo_sampler = (s', Inr out)"
    by (simp add: demo_step)
  have i0: "0 < length (rs demo_sampler)" and i1: "1 < length (rs demo_sampler)"
    by (simp_all add: demo_sampler_fields)
  from step_commit[OF st demo_aligned i0]
  have w0: "rs s' ! 0 = [1 / 2] \<and> log_psis s' ! 0 = - (1 / 2) \<and> ages s' ! 0 = 0"
    by (simp add: demo_proposal demo_acceptance_prob demo_accept_mask)
  from step_commit[OF st demo_aligned i1]
  have w1: "rs s' ! 1 = rs demo_sampler ! 1 \<and> log_psis s' ! 1 = log_psis demo_sampler ! 1
        \<and> sign_psis s' ! 1 = sign_psis demo_sampler ! 1
        \<and> forces s' ! 1 = forces demo_sampler ! 1 \<and> ages s' ! 1 = ages demo_sampler ! 1 + 1"
    by (simp add: demo_proposal demo_acceptance_prob demo_accept_mask)
  show ?thesis using st w0 w1 demo_aligned demo_accept_mask by simp
qed

text \<open>
  Claim C6. When \<^verbatim>\<open>quantum_force\<close> raises its decomposition failure on the candidate
  positions of a step of the Langevin sampler, the step raises and the sampler is
  exactly as before the call: positions, log-amplitudes, signs, forces, ages, step size
  and step counters. The error raised carries the indices and the candidate positions
  of the offending walkers (an index outside the batch raises \<^verbatim>\<open>IndexError\<close> in the
  handler instead).
\<close>

theorem force_failure_aborts:
  assumes "kind s = Langevin"
    and "quantum_force c (proposal s d) = Inl idxs"
  shows "fst (step c d s) = s
       \<and> (list_all (\<lambda>i. i < length (proposal s d)) idxs \<longrightarrow>
            snd (step c d s) = Inl (LUFactError idxs (map (\<lambda>i. proposal s d ! i) idxs)))
       \<and> (\<not> list_all (\<lambda>i. i < length (proposal s d)) idxs \<longrightarrow>
            snd (step c d s) = Inl IndexError)"
  using assms by (simp add: step_def acceptance_prob_def qforce_def Let_def)

text \<open>The force computation fails for the second walker of the example.\<close>

theorem force_failure_aborts_witness:
  "kind demo_sampler = Langevin
   \<and> quantum_force failing_collab (proposal demo_sampler demo_draws) = Inl [1]
   \<and> step failing_collab demo_draws demo_sampler
       = (demo_sampler, Inl (LUFactError [1] [[3 / 2]]))"
proof -
  have k: "kind demo_sampler = Langevin" by (simp add: demo_sampler_fields)
  have q: "quantum_force failing_collab (proposal demo_sampler demo_draws) = Inl [1]"
    by (simp add: failing_collab_def)
  from force_failure_aborts[OF k q]
  have "fst (step failing_collab demo_draws demo_sampler) = demo_sampler"
    and "snd (step failing_collab demo_draws demo_sampler) = Inl (LUFactError [1] [[3 / 2]])"
    by (simp_all add: demo_proposal)
  then show ?thesis using k q by (simp add: prod_eq_iff)
qed


section \<open>The schedule of the iterator\<close>

lemma iter_from_nonneg:
  "nat ((- i) mod (n_decorrelate s + 1)) = n \<Longrightarrow> 0 \<le> i \<Longrightarrow> 0 \<le> n_decorrelate s \<Longrightarrow>
   fst (fst (iter_with_info c rng s i)) = fst (nth_step c rng n s)
   \<and> snd (iter_with_info c rng s i) = snd (nth_step c rng n s)
   \<and> (\<forall>smp. snd (iter_with_info c rng s i) = Inr smp \<longrightarrow>
         snd (fst (iter_with_info c rng s i)) = i + int n + 1)"
proof (induction n arbitrary: s i)
  case 0
  let ?m = "n_decorrelate s + 1"
  have m: "0 < ?m" using 0 by simp
  have "0 \<le> (- i) mod ?m" using m by (rule pos_mod_sign)
  with 0 have z: "(- i) mod ?m = 0" by simp
  then have iz: "i mod ?m = 0" by (metis mod_minus_cong minus_zero dvd_eq_mod_eq_0 dvd_minus_iff)
  obtain s' r where st: "step c (rng (nat (totalstep s))) s = (s', r)"
    by (cases "step c (rng (nat (totalstep s))) s")
  have n: "n_decorrelate s' = n_decorrelate s" using step_n_decorrelate[of c _ s] st by (metis fst_conv)
  show ?case
    using st n iz 0(2) m
    by (subst (1 2 3 4) iter_with_info.simps) (auto split: sum.splits)
next
  case (Suc n)
  let ?m = "n_decorrelate s + 1"
  have m: "0 < ?m" using Suc.prems by simp
  from Suc.prems(1) have nz: "(- i) mod ?m \<noteq> 0" by auto
  then have inz: "i mod ?m \<noteq> 0" by (metis mod_minus_cong minus_zero dvd_eq_mod_eq_0 dvd_minus_iff)
  have pm: "(- i - 1) mod ?m = (- i) mod ?m - 1" using pred_mod[OF m nz] .
  obtain s' r where st: "step c (rng (nat (totalstep s))) s = (s', r)"
    by (cases "step c (rng (nat (totalstep s))) s")
  have n: "n_decorrelate s' = n_decorrelate s" using step_n_decorrelate[of c _ s] st by (metis fst_conv)
  show ?case
  proof (cases r)
    case (Inl e)
    then show ?thesis using st
      by (subst (1 2 3 4) iter_with_info.simps) simp
  next
    case (Inr smp)
    have e: "- (i + 1) = - i - 1" by simp
    have "nat ((- i - 1) mod ?m) = n" using pm Suc.prems(1) by linarith
    then have k: "nat ((- (i + 1)) mod (n_decorrelate s' + 1)) = n"
      unfolding e n .
    have ih: "fst (fst (iter_with_info c rng s' (i + 1))) = fst (nth_step c rng n s')
      \<and> snd (iter_with_info c rng s' (i + 1)) = snd (nth_step c rng n s')
      \<and> (\<forall>smp. snd (iter_with_info c rng s' (i + 1)) = Inr smp \<longrightarrow>
         snd (fst (iter_with_info c rng s' (i + 1))) = i + 1 + int n + 1)"
      using Suc.IH[OF k] Suc.prems(2,3) n by simp
    have unf: "iter_with_info c rng s i = iter_with_info c rng s' (i + 1)"
      using st Inr n inz Suc.prems(2) m
      by (subst iter_with_info.simps) simp
    show ?thesis using ih st Inr by (simp add: unf)
  qed
qed


lemma iter_from_negative:
  "nat (- i) = n \<Longrightarrow> i \<le> 0 \<Longrightarrow> 0 \<le> n_decorrelate s \<Longrightarrow>
   fst (fst (iter_with_info c rng s i)) = fst (nth_step c rng n s)
   \<and> snd (iter_with_info c rng s i) = snd (nth_step c rng n s)
   \<and> (\<forall>smp. snd (iter_with_info c rng s i) = Inr smp \<longrightarrow>
         snd (fst (iter_with_info c rng s i)) = 1)"
proof (induction n arbitrary: s i)
  case 0
  then have i: "i = 0" by simp
  show ?case using iter_from_nonneg[of 0 s 0 c rng] 0(3) by (simp add: i)
next
  case (Suc n)
  then have neg: "i < 0" by simp
  obtain s' r where st: "step c (rng (nat (totalstep s))) s = (s', r)"
    by (cases "step c (rng (nat (totalstep s))) s")
  have n: "n_decorrelate s' = n_decorrelate s"
    using step_n_decorrelate[of c _ s] st by (metis fst_conv)
  show ?case
  proof (cases r)
    case (Inl e)
    then show ?thesis using st
      by (subst (1 2 3 4) iter_with_info.simps) simp
  next
    case (Inr smp)
    have k: "nat (- (i + 1)) = n" using Suc.prems(1) neg by simp
    have ih: "fst (fst (iter_with_info c rng s' (i + 1))) = fst (nth_step c rng n s')
      \<and> snd (iter_with_info c rng s' (i + 1)) = snd (nth_step c rng n s')
      \<and> (\<forall>smp. snd (iter_with_info c rng s' (i + 1)) = Inr smp \<longrightarrow>
         snd (fst (iter_with_info c rng s' (i + 1))) = 1)"
      using Suc.IH[OF k] neg Suc.prems(3) n by simp
    have unf: "iter_with_info c rng s i = iter_with_info c rng s' (i + 1)"
      using st Inr neg by (subst iter_with_info.simps) simp
    show ?thesis using ih st Inr by (simp add: unf)
  qed
qed

lemma after_yield:
  assumes "0 < (m::int)" "j mod m = 0"
  shows "(- (j + 1)) mod m = m - 1"
proof -
  have "m dvd j" using assms(2) by (simp add: mod_eq_0_iff_dvd)
  then have z: "(- j) mod m = 0" by (simp add: mod_eq_0_iff_dvd)
  have "(- (j + 1)) mod m = (- j - 1) mod m" by simp
  also have "\<dots> = ((- j) mod m - 1) mod m" by (simp only: mod_diff_left_eq)
  also have "\<dots> = (- 1) mod m" using z by simp
  also have "\<dots> = m - 1" using assms(1) by (simp add: zmod_minus1)
  finally show ?thesis .
qed

lemma first_next:
  assumes "0 \<le> n_discard s" and "0 \<le> n_decorrelate s"
  shows "fst (fst (iter_with_info c rng s (- n_discard s)))
           = fst (nth_step c rng (nat (n_discard s)) s)
       \<and> snd (iter_with_info c rng s (- n_discard s))
           = snd (nth_step c rng (nat (n_discard s)) s)
       \<and> (\<forall>smp. snd (iter_with_info c rng s (- n_discard s)) = Inr smp \<longrightarrow>
             snd (fst (iter_with_info c rng s (- n_discard s))) = 1)"
proof -
  have h1: "nat (- (- n_discard s)) = nat (n_discard s)" by simp
  have h2: "- n_discard s \<le> 0" using assms(1) by simp
  show ?thesis by (rule iter_from_negative[OF h1 h2 assms(2)])
qed

lemma later_next:
  assumes "0 \<le> n_decorrelate s" and j: "0 \<le> j" "j mod (n_decorrelate s + 1) = 0"
  shows "fst (fst (iter_with_info c rng s (j + 1)))
               = fst (nth_step c rng (nat (n_decorrelate s)) s)
           \<and> snd (iter_with_info c rng s (j + 1))
               = snd (nth_step c rng (nat (n_decorrelate s)) s)
           \<and> (\<forall>smp. snd (iter_with_info c rng s (j + 1)) = Inr smp \<longrightarrow>
                 snd (fst (iter_with_info c rng s (j + 1))) = j + (n_decorrelate s + 1) + 1
               \<and> (j + (n_decorrelate s + 1)) mod (n_decorrelate s + 1) = 0)"
proof -
  let ?m = "n_decorrelate s + 1"
  have m: "0 < ?m" using assms(1) by simp
  have d: "nat ((- (j + 1)) mod ?m) = nat (n_decorrelate s)"
    using after_yield[OF m j(2)] by simp
  have jm: "(j + ?m) mod ?m = 0" using j(2) by simp
  have c: "j + 1 + int (nat (n_decorrelate s)) + 1 = j + (n_decorrelate s + 1) + 1"
    using assms(1) by simp
  have p: "0 \<le> j + 1" using j(1) by simp
  show ?thesis
    using iter_from_nonneg[OF d p assms(1), of c rng] jm unfolding c by blast
qed


text \<open>
  Claim C7. With \<^verbatim>\<open>n_discard\<close> and \<^verbatim>\<open>n_decorrelate\<close> not negative, the first
  \<^verbatim>\<open>next\<close> on \<^verbatim>\<open>iter_with_info()\<close> runs the steps with indices \<open>0\<close> to
  \<open>n_discard\<close> and yields what the step with index \<open>n_discard\<close> returns (the
  first \<open>n_discard\<close> steps are run and not yielded; for \<open>n_discard = 10\<close> it is the
  step with index \<open>10\<close>), or raises what the first failing step raises. After a yield
  at counter \<open>j\<close>, a multiple of \<open>n_decorrelate + 1\<close>, the next \<^verbatim>\<open>next\<close> runs
  exactly \<open>n_decorrelate + 1\<close> further steps and yields the last of them, at the
  next multiple.
\<close>

theorem iter_with_info_schedule:
  assumes "0 \<le> n_discard s" and "0 \<le> n_decorrelate s"
  shows "fst (fst (iter_with_info c rng s (- n_discard s)))
           = fst (nth_step c rng (nat (n_discard s)) s)
       \<and> snd (iter_with_info c rng s (- n_discard s))
           = snd (nth_step c rng (nat (n_discard s)) s)
       \<and> (\<forall>smp. snd (iter_with_info c rng s (- n_discard s)) = Inr smp \<longrightarrow>
             snd (fst (iter_with_info c rng s (- n_discard s))) = 1)
       \<and> (n_discard s = 10 \<longrightarrow>
             snd (iter_with_info c rng s (- 10)) = snd (nth_step c rng 10 s))
       \<and> (\<forall>j. 0 \<le> j \<and> j mod (n_decorrelate s + 1) = 0 \<longrightarrow>
             fst (fst (iter_with_info c rng s (j + 1)))
               = fst (nth_step c rng (nat (n_decorrelate s)) s)
           \<and> snd (iter_with_info c rng s (j + 1))
               = snd (nth_step c rng (nat (n_decorrelate s)) s)
           \<and> (\<forall>smp. snd (iter_with_info c rng s (j + 1)) = Inr smp \<longrightarrow>
                 snd (fst (iter_with_info c rng s (j + 1))) = j + (n_decorrelate s + 1) + 1
               \<and> (j + (n_decorrelate s + 1)) mod (n_decorrelate s + 1) = 0))"
proof -
  note first = first_next[OF assms, of c rng]
  have ten: "snd (iter_with_info c rng s (- 10)) = snd (nth_step c rng 10 s)"
    if t: "n_discard s = 10"
  proof -
    from first have "snd (iter_with_info c rng s (- n_discard s))
           = snd (nth_step c rng (nat (n_discard s)) s)" by (rule conjunct2[THEN conjunct1])
    then show ?thesis unfolding t by simp
  qed
  from first have a: "fst (fst (iter_with_info c rng s (- n_discard s)))
           = fst (nth_step c rng (nat (n_discard s)) s)" by (rule conjunct1)
  from first have b: "snd (iter_with_info c rng s (- n_discard s))
           = snd (nth_step c rng (nat (n_discard s)) s)" by (rule conjunct2[THEN conjunct1])
  from first have cc: "\<forall>smp. snd (iter_with_info c rng s (- n_discard s)) = Inr smp \<longrightarrow>
             snd (fst (iter_with_info c rng s (- n_discard s))) = 1"
    by (rule conjunct2[THEN conjunct2])
  show ?thesis
  proof (intro conjI)
    show "fst (fst (iter_with_info c rng s (- n_discard s)))
           = fst (nth_step c rng (nat (n_discard s)) s)" by (rule a)
    show "snd (iter_with_info c rng s (- n_discard s))
           = snd (nth_step c rng (nat (n_discard s)) s)" by (rule b)
    show "\<forall>smp. snd (iter_with_info c rng s (- n_discard s)) = Inr smp \<longrightarrow>
             snd (fst (iter_with_info c rng s (- n_discard s))) = 1" by (rule cc)
    show "n_discard s = 10 \<longrightarrow>
             snd (iter_with_info c rng s (- 10)) = snd (nth_step c rng 10 s)"
      using ten by (rule impI)
    show "\<forall>j. 0 \<le> j \<and> j mod (n_decorrelate s + 1) = 0 \<longrightarrow>
             fst (fst (iter_with_info c rng s (j + 1)))
               = fst (nth_step c rng (nat (n_decorrelate s)) s)
           \<and> snd (iter_with_info c rng s (j + 1))
               = snd (nth_step c rng (nat (n_decorrelate s)) s)
           \<and> (\<forall>smp. snd (iter_with_info c rng s (j + 1)) = Inr smp \<longrightarrow>
                 snd (fst (iter_with_info c rng s (j + 1))) = j + (n_decorrelate s + 1) + 1
               \<and> (j + (n_decorrelate s + 1)) mod (n_decorrelate s + 1) = 0)"
    proof (intro allI impI)
      fix j assume "0 \<le> j \<and> j mod (n_decorrelate s + 1) = 0"
      then have "0 \<le> j" "j mod (n_decorrelate s + 1) = 0" by auto
      then show "fst (fst (iter_with_info c rng s (j + 1)))
               = fst (nth_step c rng (nat (n_decorrelate s)) s)
           \<and> snd (iter_with_info c rng s (j + 1))
               = snd (nth_step c rng (nat (n_decorrelate s)) s)
           \<and> (\<forall>smp. snd (iter_with_info c rng s (j + 1)) = Inr smp \<longrightarrow>
                 snd (fst (iter_with_info c rng s (j + 1))) = j + (n_decorrelate s + 1) + 1
               \<and> (j + (n_decorrelate s + 1)) mod (n_decorrelate s + 1) = 0)"
        by (rule later_next[OF assms(2)])
    qed
  qed
qed

text \<open>The example sampler with \<open>n_discard = 10\<close> and \<open>n_decorrelate = 1\<close>.\<close>

theorem iter_with_info_schedule_witness:
  "0 \<le> n_discard (demo_sampler\<lparr>n_discard := 10, n_decorrelate := 1\<rparr>)
   \<and> 0 \<le> n_decorrelate (demo_sampler\<lparr>n_discard := 10, n_decorrelate := 1\<rparr>)
   \<and> snd (iter_with_info demo_collab (\<lambda>k. demo_draws) (demo_sampler\<lparr>n_discard := 10, n_decorrelate := 1\<rparr>) (- 10))
       = snd (nth_step demo_collab (\<lambda>k. demo_draws) 10 (demo_sampler\<lparr>n_discard := 10, n_decorrelate := 1\<rparr>))
   \<and> snd (iter_with_info demo_collab (\<lambda>k. demo_draws) (demo_sampler\<lparr>n_discard := 10, n_decorrelate := 1\<rparr>) (4 + 1))
       = snd (nth_step demo_collab (\<lambda>k. demo_draws) 1 (demo_sampler\<lparr>n_discard := 10, n_decorrelate := 1\<rparr>))"
proof -
  let ?s = "demo_sampler\<lparr>n_discard := 10, n_decorrelate := 1\<rparr>"
  have h: "0 \<le> n_discard ?s" "0 \<le> n_decorrelate ?s" "n_discard ?s = 10"
    "n_decorrelate ?s = 1"
    by (simp_all add: demo_sampler_fields)
  note t = iter_with_info_schedule[OF h(1,2), of demo_collab "\<lambda>k. demo_draws"]
  note t4 = t[THEN conjunct2, THEN conjunct2, THEN conjunct2, THEN conjunct1]
  note t5 = t[THEN conjunct2, THEN conjunct2, THEN conjunct2, THEN conjunct2, THEN spec, of 4]
  have 1: "snd (iter_with_info demo_collab (\<lambda>k. demo_draws) ?s (- 10))
       = snd (nth_step demo_collab (\<lambda>k. demo_draws) 10 ?s)"
    by (rule t4[THEN mp, OF h(3)])
  have j: "(0::int) \<le> 4 \<and> 4 mod (n_decorrelate ?s + 1) = 0" by (simp add: h(4))
  have "snd (iter_with_info demo_collab (\<lambda>k. demo_draws) ?s (4 + 1))
       = snd (nth_step demo_collab (\<lambda>k. demo_draws) (nat (n_decorrelate ?s)) ?s)"
    by (rule t5[THEN mp, OF j, THEN conjunct2, THEN conjunct1])
  moreover have "nat (n_decorrelate ?s) = 1" by (simp add: h(4))
  ultimately have 2: "snd (iter_with_info demo_collab (\<lambda>k. demo_draws) ?s (4 + 1))
       = snd (nth_step demo_collab (\<lambda>k. demo_draws) 1 ?s)" by (simp only:)
  show ?thesis using h(1,2) 1 2 by (intro conjI)
qed

section \<open>Epochs of batches\<close>

lemma step_walkers:
  "length (rs (fst (step c d s))) = length (rs s)"
  by (auto simp: step_def Let_def assign_where_def split: sum.splits prod.splits list.splits)

lemma step_sample_walkers:
  "step c d s = (s', Inr (r, lp, sp, nfo)) \<Longrightarrow> length r = length (rs s)"
  using step_walkers[of c d s]
  by (auto simp: step_def Let_def split: sum.splits prod.splits if_splits)

lemma iter_walkers:
  "length (rs (fst (fst (iter_with_info c rng s i)))) = length (rs s)
   \<and> (\<forall>r lp sp nfo. snd (iter_with_info c rng s i) = Inr (r, lp, sp, nfo) \<longrightarrow>
         length r = length (rs s))"
proof (induction c rng s i rule: iter_with_info.induct)
  case (1 c rng s i)
  obtain s' r where st: "step c (rng (nat (totalstep s))) s = (s', r)"
    by (cases "step c (rng (nat (totalstep s))) s")
  have w: "length (rs s') = length (rs s)" using step_walkers[of c _ s] st by (metis fst_conv)
  show ?case
  proof (cases r)
    case (Inl e)
    then show ?thesis using st w by (subst (1 2) iter_with_info.simps) simp
  next
    case (Inr smp)
    obtain r0 lp sp nfo where smp: "smp = (r0, lp, sp, nfo)" by (cases smp)
    have l: "length r0 = length (rs s)" using step_sample_walkers st Inr smp by blast
    consider (yield) "0 \<le> i" "n_decorrelate s' + 1 \<noteq> 0" "i mod (n_decorrelate s' + 1) = 0"
      | (zero) "0 \<le> i" "n_decorrelate s' + 1 = 0"
      | (rec) "\<not> (0 \<le> i \<and> (n_decorrelate s' + 1 = 0 \<or> i mod (n_decorrelate s' + 1) = 0))"
      by blast
    then show ?thesis
    proof cases
      case yield
      then show ?thesis using st Inr smp w l by (subst (1 2) iter_with_info.simps) simp
    next
      case zero
      then show ?thesis using st Inr smp w by (subst (1 2) iter_with_info.simps) simp
    next
      case rec
      then have unf: "iter_with_info c rng s i = iter_with_info c rng s' (i + 1)"
        using st Inr by (subst iter_with_info.simps) auto
      have ih: "length (rs (fst (fst (iter_with_info c rng s' (i + 1))))) = length (rs s')
         \<and> (\<forall>r lp sp nfo. snd (iter_with_info c rng s' (i + 1)) = Inr (r, lp, sp, nfo) \<longrightarrow>
               length r = length (rs s'))"
      proof (cases "0 \<le> i")
        case True
        with rec have "n_decorrelate s' + 1 \<noteq> 0" "i mod (n_decorrelate s' + 1) \<noteq> 0" by auto
        then show ?thesis using "1.IH"(1)[OF st[symmetric] _ True] Inr by simp
      next
        case False
        then show ?thesis using "1.IH"(2)[OF st[symmetric] _ False] Inr by simp
      qed
      show ?thesis using ih w by (simp add: unf)
    qed
  qed
qed


lemma draw_samples_walkers:
  "draw_samples c rng n s i = (s', Inr smps) \<Longrightarrow>
   length smps = n \<and> length (rs s') = length (rs s)
   \<and> list_all (\<lambda>smp. length (fst smp) = length (rs s)) smps"
proof (induction n arbitrary: s i s' smps)
  case 0
  then show ?case by simp
next
  case (Suc n)
  obtain s1 i1 r where it: "iter_with_info c rng s i = ((s1, i1), r)"
    by (cases "iter_with_info c rng s i") auto
  from Suc.prems it obtain smp where r: "r = Inr smp" by (cases r) auto
  from Suc.prems it r obtain rest where
    dr: "draw_samples c rng n s1 i1 = (s', Inr rest)" and smps: "smps = smp # rest"
    by (auto split: prod.splits sum.splits)
  have w1: "length (rs s1) = length (rs s)" and l: "length (fst smp) = length (rs s)"
    using iter_walkers[of c rng s i] it r by (cases smp; simp)+
  from Suc.IH[OF dr] w1 l smps show ?case by simp
qed

lemma samples_from_pool:
  assumes "samples_from c rng s n_steps = (s1, Inr (xs, lps, sps))"
  shows "0 < n_steps \<and> length (concat xs) = length (rs s) * nat n_steps
       \<and> (\<exists>smps. draw_samples c rng (nat n_steps) s (- n_discard s) = (s1, Inr smps)
             \<and> length smps = nat n_steps)"
proof -
  from assms obtain smps where
    dr: "draw_samples c rng (nat n_steps) s (- n_discard s) = (s1, Inr smps)"
    and ne: "smps \<noteq> []"
    and xs: "xs = columns (map (\<lambda>(r, lp, sp, nfo). r) smps)"
    by (auto simp: samples_from_def Let_def split: prod.splits sum.splits if_splits)
  from draw_samples_walkers[OF dr] have
    n: "length smps = nat n_steps" and l: "list_all (\<lambda>smp. length (fst smp) = length (rs s)) smps"
    by auto
  from ne n have pos: "0 < n_steps" by (cases "n_steps \<le> 0") auto
  have hd: "length (hd (map (\<lambda>(r, lp, sp, nfo). r) smps)) = length (rs s)"
    using ne l by (cases smps) (auto split: prod.splits)
  have "length (concat xs) = length (rs s) * nat n_steps"
    unfolding xs using concat_columns_length[of "map (\<lambda>(r, lp, sp, nfo). r) smps"] hd n
    by simp
  then show ?thesis using pos dr n by blast
qed


lemma restart_resets:
  "restart c s = Inr s' \<Longrightarrow> step_counter s' = 0 \<and> list_all (\<lambda>a. a = 0) (ages s')"
  by (auto simp: restart_def recompute_psi_def list_all_iff
      split: sum.splits kind.splits prod.splits)

lemma ceiling_pool:
  assumes "0 < w" "0 < b"
  shows "nat e * nat b \<le> w * nat \<lceil>real_of_int (e * b) / real w\<rceil>"
proof (cases "0 \<le> e")
  case False
  then show ?thesis by simp
next
  case True
  define x where "x = real_of_int (e * b)"
  define n where "n = \<lceil>x / real w\<rceil>"
  have x0: "0 \<le> x" using True assms(2) by (simp add: x_def)
  then have "0 \<le> x / real w" by simp
  then have "\<lceil>0::real\<rceil> \<le> \<lceil>x / real w\<rceil>" by (rule ceiling_mono)
  then have nn: "0 \<le> n" by (simp add: n_def)
  have "x / real w \<le> real_of_int n" unfolding n_def by (rule le_of_int_ceiling)
  then have "x \<le> real_of_int n * real w"
    using assms(1) by (simp add: pos_divide_le_eq)
  also have "\<dots> = real_of_int (n * int w)" by simp
  finally have "real_of_int (e * b) \<le> real_of_int (n * int w)" unfolding x_def .
  then have "e * b \<le> n * int w" by (simp only: of_int_le_iff)
  then have "nat (e * b) \<le> nat (n * int w)" by simp
  moreover have "nat (e * b) = nat e * nat b" using True by (simp add: nat_mult_distrib)
  moreover have "nat (n * int w) = w * nat n" using nn by (simp add: nat_mult_distrib)
  ultimately show ?thesis by (simp add: n_def x_def)
qed

lemma demo_iter:
  "iter_with_info demo_collab (\<lambda>k. demo_draws) demo_sampler 0
     = ((after_demo_step, 1),
        Inr ([[1 / 2], [1]], [- (1 / 2), - 1], [1, 1],
             \<lparr>info_acceptance = 1 / 2, info_age = [0, 1], info_tau = 1 / 4\<rparr>))"
  by (subst iter_with_info.simps) (simp add: demo_step after_demo_step_def demo_sampler_fields)

lemma demo_samples_from:
  "samples_from demo_collab (\<lambda>k. demo_draws) demo_sampler 1
     = (after_demo_step, Inr ([[[1 / 2]], [[1]]], [[- (1 / 2)], [- 1]], [[1], [1]]))"
  by (simp add: samples_from_def demo_sampler_fields demo_iter rectangular_def columns_def)

lemma after_demo_step_fields:
  "kind after_demo_step = Langevin" "rs after_demo_step = [[1 / 2], [1]]"
  "tau after_demo_step = 25 / 114"
  by (simp_all add: after_demo_step_def demo_sampler_fields)

lemma demo_restart:
  "restart demo_collab after_demo_step
     = Inr (after_demo_step\<lparr>step_counter := 0, forces := [[0], [0]],
              log_psis := [- (1 / 2), - 1], sign_psis := [1, 1], ages := [0, 0]\<rparr>)"
  by (simp add: restart_def recompute_psi_def qforce_def after_demo_step_fields demo_collab_def)

lemma ceiling_half: "\<lceil>1 / 2 :: real\<rceil> = 1"
  by (rule ceiling_unique) simp_all

lemma demo_epoch:
  "iter_batches_epoch demo_collab (\<lambda>k. demo_draws) [1, 0] 1 1 demo_sampler
     = ([[([1], - 1, 1)], [([1 / 2], - (1 / 2), 1)]],
        after_demo_step\<lparr>step_counter := 0, forces := [[0], [0]],
          log_psis := [- (1 / 2), - 1], sign_psis := [1, 1], ages := [0, 0]\<rparr>,
        None)"
  by (simp add: iter_batches_epoch_def demo_sampler_fields ceiling_half demo_samples_from
      demo_restart Let_def)

text \<open>
  Claim C8, as the code has it. A turn of the loop of \<^verbatim>\<open>iter_batches\<close> that raises
  nothing has a positive number of walkers \<open>W\<close> and a positive batch size; it draws
  exactly \<open>n = ceil (epoch_size * batch_size / W)\<close> samples from a fresh iterator of
  the sampler, yields \<open>(W * n) div batch_size\<close> batches of exactly \<open>batch_size\<close>
  rows each, and then restarts the sampler (step counter and ages at zero). The number
  of batches is at least \<open>epoch_size\<close>; it is \<open>4\<close> for \<open>100\<close> walkers, epoch size
  \<open>4\<close> and batch size \<open>50\<close>. It is not \<open>epoch_size\<close> in general: nothing cuts the
  pool down to \<open>epoch_size * batch_size\<close> rows.
\<close>

theorem iter_batches_epoch_count:
  assumes "iter_batches_epoch c rng perm E B s = (batches, s', None)"
  shows "0 < length (rs s) \<and> 0 < B
       \<and> (\<exists>s1 smps.
             draw_samples c rng (nat \<lceil>real_of_int (E * B) / real (length (rs s))\<rceil>) s
               (- n_discard s) = (s1, Inr smps)
           \<and> length smps = nat \<lceil>real_of_int (E * B) / real (length (rs s))\<rceil>
           \<and> restart c s1 = Inr s')
       \<and> step_counter s' = 0 \<and> list_all (\<lambda>a. a = 0) (ages s')
       \<and> length batches
           = (length (rs s) * nat \<lceil>real_of_int (E * B) / real (length (rs s))\<rceil>) div nat B
       \<and> list_all (\<lambda>b. length b = nat B) batches
       \<and> nat E \<le> length batches
       \<and> (length (rs s) = 100 \<and> E = 4 \<and> B = 50 \<longrightarrow> length batches = 4)"
proof -
  let ?W = "length (rs s)"
  let ?n = "\<lceil>real_of_int (E * B) / real ?W\<rceil>"
  from assms have W: "0 < ?W"
    by (auto simp: iter_batches_epoch_def split: if_splits)
  from assms W obtain s1 xs lps sps where
    sf: "samples_from c rng s ?n = (s1, Inr (xs, lps, sps))"
    by (auto simp: iter_batches_epoch_def Let_def split: prod.splits sum.splits if_splits)
  from assms W sf have
    len: "length (concat lps) = length (concat xs)" "length (concat sps) = length (concat xs)"
    and B: "0 < B"
    by (auto simp: iter_batches_epoch_def Let_def split: prod.splits sum.splits if_splits)
  from assms W sf len B have
    rst: "restart c s1 = Inr s'"
    and bt: "batches = map (\<lambda>k. map (\<lambda>j. zip (concat xs) (zip (concat lps) (concat sps)) ! (perm ! j))
                               [k * nat B..<(k + 1) * nat B])
                       [0..<length (zip (concat xs) (zip (concat lps) (concat sps))) div nat B]"
    by (auto simp: iter_batches_epoch_def Let_def split: prod.splits sum.splits if_splits)
  from samples_from_pool[OF sf] obtain smps where
    pool: "length (concat xs) = ?W * nat ?n"
    and dr: "draw_samples c rng (nat ?n) s (- n_discard s) = (s1, Inr smps)"
    and ns: "length smps = nat ?n"
    by blast
  have cnt: "length batches = (?W * nat ?n) div nat B"
    using bt len pool by simp
  have rows: "list_all (\<lambda>b. length b = nat B) batches"
    unfolding bt by (simp add: list_all_iff)
  have "nat E * nat B \<le> ?W * nat ?n" using ceiling_pool[OF W B] .
  then have "(nat E * nat B) div nat B \<le> (?W * nat ?n) div nat B" by (rule div_le_mono)
  then have atleast: "nat E \<le> length batches" using B cnt by simp
  have ex: "length batches = 4" if "?W = 100 \<and> E = 4 \<and> B = 50"
  proof -
    from that have "?n = 2" by simp
    then show ?thesis using cnt that by simp
  qed
  show ?thesis
    using W B dr ns rst restart_resets[OF rst] cnt rows atleast ex by blast
qed

text \<open>
  Two walkers, \<^verbatim>\<open>iter_batches(epoch_size=1, batch_size=1)\<close>: one step is drawn, the
  pool has two rows, and the turn yields two batches where the epoch size is one.
\<close>

theorem iter_batches_epoch_count_witness:
  "iter_batches_epoch demo_collab (\<lambda>k. demo_draws) [1, 0] 1 1 demo_sampler
     = ([[([1], - 1, 1)], [([1 / 2], - (1 / 2), 1)]],
        after_demo_step\<lparr>step_counter := 0, forces := [[0], [0]],
          log_psis := [- (1 / 2), - 1], sign_psis := [1, 1], ages := [0, 0]\<rparr>,
        None)
   \<and> length [[([1 :: real], - 1 :: real, 1 :: real)], [([1 / 2], - (1 / 2), 1)]]
       = (length (rs demo_sampler)
            * nat \<lceil>real_of_int (1 * 1) / real (length (rs demo_sampler))\<rceil>) div nat 1
   \<and> length [[([1 :: real], - 1 :: real, 1 :: real)], [([1 / 2], - (1 / 2), 1)]] = 2
   \<and> nat 1 < length [[([1 :: real], - 1 :: real, 1 :: real)], [([1 / 2], - (1 / 2), 1)]]"
proof -
  note t = iter_batches_epoch_count[OF demo_epoch]
  have "length [[([1 :: real], - 1 :: real, 1 :: real)], [([1 / 2], - (1 / 2), 1)]]
       = (length (rs demo_sampler)
            * nat \<lceil>real_of_int (1 * 1) / real (length (rs demo_sampler))\<rceil>) div nat 1"
    by (rule t[THEN conjunct2, THEN conjunct2, THEN conjunct2, THEN conjunct2,
          THEN conjunct2, THEN conjunct1])
  then show ?thesis using demo_epoch by simp
qed

end
